theory Spec2Isabelle
  imports
    Complex_Main
    "HOL-Library.AList"
    "HOL-Library.Sublist"
    "HOL-Library.Char_ord"
    "HOL-Library.List_Lexorder"
    "HOL-Library.Product_Lexorder"
begin

section \<open>The cleaning engine of \<^verbatim>\<open>autoclean/cleaner.py\<close>\<close>

text \<open>
  \<^verbatim>\<open>clean_dataframe\<close> is written against pandas. The embedding below keeps the five
  passes of the function in the order and shape of the source and models the pandas
  operations it calls on the data a pandas 1.x/2.x frame holds when it comes from
  \<^verbatim>\<open>pd.read_csv\<close> or from \<^verbatim>\<open>pd.DataFrame\<close> over plain Python values: columns of dtype
  \<^verbatim>\<open>object\<close>, \<^verbatim>\<open>int64\<close>, \<^verbatim>\<open>float64\<close>, \<^verbatim>\<open>bool\<close> and \<^verbatim>\<open>datetime64[ns]\<close>.

  Limits of the model, all on the side of the library and none on the side of the
  function: strings are sequences of 8-bit characters on which case and whitespace are
  those of ASCII; the timestamp parser, the printing of floats and timestamps and the
  floating point mean of two numbers are parameters (\<open>pandas\<close> below), since their code
  is not part of the repository. A float is a number or an infinity, and NaN is the null
  of a float column; no theorem depends on which numbers are floats or on how the mean
  is rounded.
\<close>

subsection \<open>Cells, columns, frames\<close>

text \<open>The four null markers of pandas; \<^verbatim>\<open>isna\<close> holds of all of them.\<close>

datatype null_kind = PyNone | NaN | NA | NaT

text \<open>The values of a Python float other than NaN.\<close>

datatype float_val = Fin rat | PInf | MInf

datatype cell =
    Null null_kind
  | Str string
  | IntV int
  | FloatV float_val
  | BoolV bool
  | Timestamp int  \<comment> \<open>timezone-naive, nanoseconds since the epoch\<close>

datatype dtype = Object | Int64 | Float64 | Boolean | Datetime64

record column =
  cname :: string
  dtype :: dtype
  cvals :: "cell list"

type_synonym frame = "column list"

text \<open>\<^verbatim>\<open>len(df)\<close>: the number of rows. A frame is modelled with at least one column
  whenever it has a row.\<close>

definition len :: "frame \<Rightarrow> nat" where
  "len df = (case df of [] \<Rightarrow> 0 | c # _ \<Rightarrow> length (cvals c))"

text \<open>The values a column of each dtype can hold: an object column holds any Python
  object, an \<^verbatim>\<open>int64\<close> or \<^verbatim>\<open>bool\<close> column has no null, the null of a \<^verbatim>\<open>float64\<close> column
  is NaN and that of a \<^verbatim>\<open>datetime64\<close> column is NaT.\<close>

fun has_dtype :: "dtype \<Rightarrow> cell \<Rightarrow> bool" where
  "has_dtype Object x = True"
| "has_dtype Int64 x = (case x of IntV i \<Rightarrow> True | _ \<Rightarrow> False)"
| "has_dtype Float64 x = (case x of FloatV v \<Rightarrow> True | Null k \<Rightarrow> k = NaN | _ \<Rightarrow> False)"
| "has_dtype Boolean x = (case x of BoolV b \<Rightarrow> True | _ \<Rightarrow> False)"
| "has_dtype Datetime64 x = (case x of Timestamp t \<Rightarrow> True | Null k \<Rightarrow> k = NaT | _ \<Rightarrow> False)"

definition well_typed :: "column \<Rightarrow> bool" where
  "well_typed c = list_all (has_dtype (dtype c)) (cvals c)"

text \<open>A pandas frame: a rectangular table whose column labels are distinct strings and
  whose columns hold values of their dtype.\<close>

definition well_formed :: "frame \<Rightarrow> bool" where
  "well_formed df \<longleftrightarrow>
     distinct (map cname df) \<and> list_all (\<lambda>c. length (cvals c) = len df) df \<and>
     list_all well_typed df"

text \<open>The library functions whose code is outside the repository.\<close>

record pandas =
  str_float :: "float_val \<Rightarrow> string"  \<comment> \<open>Python's \<^verbatim>\<open>str\<close> of a float that is not NaN\<close>
  float_mean :: "float_val \<Rightarrow> float_val \<Rightarrow> float_val option"
    \<comment> \<open>the mean of two floats as \<^verbatim>\<open>numpy\<close> takes it for a median, \<^verbatim>\<open>(a + b) / 2\<close> in
        double precision; \<open>None\<close> where the result is NaN (the two infinities)\<close>
  str_timestamp :: "int \<Rightarrow> string"    \<comment> \<open>\<^verbatim>\<open>str\<close> of a Timestamp\<close>
  to_datetime :: "cell list \<Rightarrow> cell \<Rightarrow> int option"
    \<comment> \<open>\<^verbatim>\<open>pd.to_datetime(column, errors="coerce", utc=True)\<close> followed by
        \<^verbatim>\<open>.dt.tz_convert(None)\<close>, at one value of the column: the timestamp, or
        \<open>None\<close> where the value is coerced to NaT. The column is an argument because
        pandas infers one format for the whole column.\<close>

subsection \<open>The audit record\<close>

datatype aval = AInt int | AStr string

type_synonym changes = "(string \<times> (string \<times> aval) list) list"

record audit =
  rows_before :: int
  rows_after :: "int option"
  duplicates_removed :: int
  columns :: "string list"
  column_changes :: changes
  issues :: "string list"

text \<open>\<^verbatim>\<open>audit["column_changes"][col][key] = v\<close>\<close>

definition set_change :: "string \<Rightarrow> string \<Rightarrow> aval \<Rightarrow> changes \<Rightarrow> changes" where
  "set_change col key v ch = AList.map_entry col (AList.update key v) ch"

text \<open>\<^verbatim>\<open>audit["column_changes"][col].get(key)\<close>\<close>

definition get_change :: "changes \<Rightarrow> string \<Rightarrow> string \<Rightarrow> aval option" where
  "get_change ch col key = (case map_of ch col of None \<Rightarrow> None | Some d \<Rightarrow> map_of d key)"

subsection \<open>Strings\<close>

definition upper_letters :: string where
  "upper_letters = ''ABCDEFGHIJKLMNOPQRSTUVWXYZ''"

definition lower_letters :: string where
  "lower_letters = ''abcdefghijklmnopqrstuvwxyz''"

definition digits :: string where
  "digits = ''0123456789''"

definition lower_char :: "char \<Rightarrow> char" where
  "lower_char c = (case map_of (zip upper_letters lower_letters) c of None \<Rightarrow> c | Some d \<Rightarrow> d)"

text \<open>\<^verbatim>\<open>str.lower()\<close>\<close>

definition str_lower :: "string \<Rightarrow> string" where
  "str_lower s = map lower_char s"

text \<open>The ASCII characters for which \<^verbatim>\<open>str.isspace()\<close> holds: tab to carriage return,
  the four separators \<^verbatim>\<open>\x1c\<close> to \<^verbatim>\<open>\x1f\<close>, and the space.\<close>

definition isspace :: "char \<Rightarrow> bool" where
  "isspace c = (let n = (of_char c :: nat) in (9 \<le> n \<and> n \<le> 13) \<or> (28 \<le> n \<and> n \<le> 32))"

text \<open>\<^verbatim>\<open>str.strip()\<close>\<close>

definition str_strip :: "string \<Rightarrow> string" where
  "str_strip s = rev (dropWhile isspace (rev (dropWhile isspace s)))"

text \<open>\<^verbatim>\<open>str\<close> of a Python int.\<close>

fun str_nat :: "nat \<Rightarrow> string" where
  "str_nat n = (if n < 10 then [digits ! n] else str_nat (n div 10) @ [digits ! (n mod 10)])"

definition str_int :: "int \<Rightarrow> string" where
  "str_int i = (if i < 0 then CHR ''-'' # str_nat (nat (- i)) else str_nat (nat i))"

text \<open>\<^verbatim>\<open>str(x)\<close> of a cell, as \<^verbatim>\<open>astype(str)\<close> applies it to every element of an object
  column, the null markers included.\<close>

fun py_str :: "'a pandas_scheme \<Rightarrow> cell \<Rightarrow> string" where
  "py_str P (Null PyNone) = ''None''"
| "py_str P (Null NaN) = ''nan''"
| "py_str P (Null NA) = ''<NA>''"
| "py_str P (Null NaT) = ''NaT''"
| "py_str P (Str s) = s"
| "py_str P (IntV i) = str_int i"
| "py_str P (FloatV x) = str_float P x"
| "py_str P (BoolV b) = (if b then ''True'' else ''False'')"
| "py_str P (Timestamp t) = str_timestamp P t"

subsection \<open>Series operations\<close>

text \<open>\<^verbatim>\<open>pd.isna\<close> / \<^verbatim>\<open>pd.notna\<close> on a scalar, and \<^verbatim>\<open>Series.isna().sum()\<close>.\<close>

fun isna :: "cell \<Rightarrow> bool" where
  "isna (Null _) = True"
| "isna _ = False"

definition count_na :: "cell list \<Rightarrow> int" where
  "count_na vs = int (length (filter isna vs))"

text \<open>An element-wise method of the \<^verbatim>\<open>.str\<close> accessor on an object column: applied to
  strings, null markers stay, any other value gives NaN.\<close>

fun str_method :: "(string \<Rightarrow> string) \<Rightarrow> cell \<Rightarrow> cell" where
  "str_method f (Str s) = Str (f s)"
| "str_method f (Null k) = Null k"
| "str_method f _ = Null NaN"

text \<open>\<^verbatim>\<open>df.loc[mask, col] = v\<close> on the values of the column.\<close>

definition assign_where :: "(cell \<Rightarrow> bool) \<Rightarrow> cell \<Rightarrow> cell list \<Rightarrow> cell list" where
  "assign_where p v vs = map (\<lambda>x. if p x then v else x) vs"

text \<open>The loops \<^verbatim>\<open>for col in ...columns\<close>: each iteration reads and writes its own column
  and the shared \<^verbatim>\<open>column_changes\<close>.\<close>

fun for_columns ::
  "(column \<Rightarrow> changes \<Rightarrow> column \<times> changes) \<Rightarrow> frame \<Rightarrow> changes \<Rightarrow> frame \<times> changes" where
  "for_columns body [] ch = ([], ch)"
| "for_columns body (c # cs) ch =
     (let (c', ch') = body c ch;
          (cs', ch'') = for_columns body cs ch'
      in (c' # cs', ch''))"

subsection \<open>Pass 1: trim whitespace in object columns\<close>

definition trim_col :: "'a pandas_scheme \<Rightarrow> column \<Rightarrow> changes \<Rightarrow> column \<times> changes" where
  "trim_col P c ch =
     (if dtype c = Object then
        (let before_nulls = count_na (cvals c);
             stripped = map (str_method str_strip) (map (\<lambda>x. Str (py_str P x)) (cvals c));
             blanked = assign_where (\<lambda>x. x = Str '''') (Null NA) stripped;
             after_nulls = count_na blanked;
             delta = after_nulls - before_nulls
         in (c\<lparr>cvals := blanked\<rparr>,
             if delta \<noteq> 0
             then set_change (cname c) ''new_nulls_from_empty_strings'' (AInt delta) ch
             else ch))
      else (c, ch))"

subsection \<open>Pass 2: parse dates where the column name hints at one\<close>

definition temporal_name :: "string \<Rightarrow> bool" where
  "temporal_name col =
     (let cl = str_lower col in sublist ''date'' cl \<or> sublist ''_at'' cl \<or> sublist ''time'' cl)"

fun cell_of_parsed :: "int option \<Rightarrow> cell" where
  "cell_of_parsed None = Null NaT"
| "cell_of_parsed (Some t) = Timestamp t"

definition parse_col :: "'a pandas_scheme \<Rightarrow> column \<Rightarrow> changes \<Rightarrow> column \<times> changes" where
  "parse_col P c ch =
     (if temporal_name (cname c) then
        (let parsed = map (\<lambda>x. cell_of_parsed (to_datetime P (cvals c) x)) (cvals c);
             converted = int (length (filter (\<lambda>x. \<not> isna x) parsed))
         in if converted > 0
            then (c\<lparr>dtype := Datetime64, cvals := parsed\<rparr>,
                  set_change (cname c) ''parsed_to_datetime'' (AInt converted) ch)
            else (c, ch))
      else (c, ch))"

subsection \<open>Pass 3: normalise emails\<close>

text \<open>
  \<^verbatim>\<open>EMAIL_RE = re.compile(r"^[A-Za-z0-9._%+-]+@[A-Za-z0-9.-]+\.[A-Za-z]{2,}$")\<close>,
  used with \<^verbatim>\<open>match\<close>. The matcher follows the expression from left to right; each
  combinator takes the matcher of the rest of the expression, so that a repetition tries
  every length, as the backtracking of \<^verbatim>\<open>re\<close> does.
\<close>

definition letter :: "char \<Rightarrow> bool" where
  "letter c \<longleftrightarrow> c \<in> set (upper_letters @ lower_letters)"

definition local_char :: "char \<Rightarrow> bool" where
  "local_char c \<longleftrightarrow> c \<in> set (upper_letters @ lower_letters @ digits @ ''._%+-'')"

definition domain_char :: "char \<Rightarrow> bool" where
  "domain_char c \<longleftrightarrow> c \<in> set (upper_letters @ lower_letters @ digits @ ''.-'')"

text \<open>\<open>[class]+\<close> followed by \<open>k\<close>\<close>

fun re_plus :: "(char \<Rightarrow> bool) \<Rightarrow> (string \<Rightarrow> bool) \<Rightarrow> string \<Rightarrow> bool" where
  "re_plus p k [] = False"
| "re_plus p k (c # cs) = (p c \<and> (re_plus p k cs \<or> k cs))"

text \<open>a literal character followed by \<open>k\<close>\<close>

fun re_lit :: "char \<Rightarrow> (string \<Rightarrow> bool) \<Rightarrow> string \<Rightarrow> bool" where
  "re_lit a k [] = False"
| "re_lit a k (c # cs) = (c = a \<and> k cs)"

text \<open>\<open>$\<close> without \<^verbatim>\<open>re.MULTILINE\<close>: the end of the string, or just before a newline that
  ends the string.\<close>

definition re_end :: "string \<Rightarrow> bool" where
  "re_end s \<longleftrightarrow> s = [] \<or> s = [CHR 0x0A]"

text \<open>\<open>[A-Za-z]{2,}$\<close>: two letters, then \<open>[A-Za-z]*$\<close>\<close>

fun re_letters_end :: "string \<Rightarrow> bool" where
  "re_letters_end [] = re_end []"
| "re_letters_end (c # cs) = (re_end (c # cs) \<or> (letter c \<and> re_letters_end cs))"

fun re_tld :: "string \<Rightarrow> bool" where
  "re_tld (a # b # cs) = (letter a \<and> letter b \<and> re_letters_end cs)"
| "re_tld _ = False"

definition EMAIL_RE :: "string \<Rightarrow> bool" where
  "EMAIL_RE s =
     re_plus local_char (re_lit (CHR ''@'') (re_plus domain_char (re_lit (CHR ''.'') re_tld))) s"

text \<open>\<^verbatim>\<open>lambda x: bool(EMAIL_RE.match(str(x))) if pd.notna(x) else False\<close>\<close>

definition valid_email :: "'a pandas_scheme \<Rightarrow> cell \<Rightarrow> bool" where
  "valid_email P x = (if \<not> isna x then EMAIL_RE (py_str P x) else False)"

definition email_name :: "string \<Rightarrow> bool" where
  "email_name col = sublist ''email'' (str_lower col)"

definition email_col :: "'a pandas_scheme \<Rightarrow> column \<Rightarrow> changes \<Rightarrow> column \<times> changes" where
  "email_col P c ch =
     (if dtype c = Object \<and> email_name (cname c) then
        (let before_valid = int (length (filter (valid_email P) (cvals c)));
             lowered = map (str_method str_lower) (cvals c);
             after_valid = int (length (filter (valid_email P) lowered))
         in (c\<lparr>cvals := lowered\<rparr>,
             set_change (cname c) ''emails_valid_after'' (AInt after_valid)
               (set_change (cname c) ''emails_valid_before'' (AInt before_valid) ch)))
      else (c, ch))"

subsection \<open>Pass 4: remove duplicates\<close>

text \<open>\<^verbatim>\<open>norm[c] = norm[c].str.lower().str.strip()\<close> for the object columns.\<close>

definition norm_col :: "column \<Rightarrow> column" where
  "norm_col c =
     (if dtype c = Object
      then c\<lparr>cvals := map (str_method str_strip) (map (str_method str_lower) (cvals c))\<rparr>
      else c)"

text \<open>What \<^verbatim>\<open>DataFrame.duplicated\<close> compares of a value: all null markers are one.\<close>

definition dup_key :: "cell \<Rightarrow> cell option" where
  "dup_key x = (if isna x then None else Some x)"

text \<open>The rows of a frame, as the tuples \<^verbatim>\<open>duplicated\<close> compares.\<close>

definition row_keys :: "frame \<Rightarrow> cell option list list" where
  "row_keys df = map (\<lambda>i. map (\<lambda>c. dup_key (cvals c ! i)) df) [0..<len df]"

text \<open>\<^verbatim>\<open>duplicated()\<close> with the default \<^verbatim>\<open>keep="first"\<close>: a row is marked when an
  earlier row has the same key.\<close>

fun duplicated_from :: "'k list \<Rightarrow> 'k list \<Rightarrow> bool list" where
  "duplicated_from seen [] = []"
| "duplicated_from seen (k # ks) = (k \<in> set seen) # duplicated_from (seen @ [k]) ks"

definition duplicated :: "frame \<Rightarrow> bool list" where
  "duplicated df = duplicated_from [] (row_keys df)"

text \<open>\<^verbatim>\<open>df.loc[mask, :]\<close> on the values of one column.\<close>

definition select_rows :: "bool list \<Rightarrow> 'a list \<Rightarrow> 'a list" where
  "select_rows keep vs = map fst (filter snd (zip vs keep))"

definition drop_duplicates :: "frame \<Rightarrow> frame \<times> int" where
  "drop_duplicates df =
     (let norm = map norm_col df;
          before_rows = int (len df);
          keep = map Not (duplicated norm);
          df' = map (\<lambda>c. c\<lparr>cvals := select_rows keep (cvals c)\<rparr>) df;
          removed = before_rows - int (len df')
      in (df', removed))"

subsection \<open>Pass 5: impute missing values by dtype\<close>

text \<open>The order of the floats: \<open>-inf\<close>, the numbers, \<open>inf\<close>.\<close>

fun float_key :: "float_val \<Rightarrow> int \<times> rat" where
  "float_key MInf = (- 1, 0)"
| "float_key (Fin x) = (0, x)"
| "float_key PInf = (1, 0)"

text \<open>\<^verbatim>\<open>Series.median()\<close> of the values that are not null: the middle value in ascending
  order, or the mean of the two middle values; \<open>None\<close> is NaN, the median of no value and
  the mean of the two infinities.\<close>

definition median :: "'a pandas_scheme \<Rightarrow> float_val list \<Rightarrow> float_val option" where
  "median P xs =
     (let s = sort_key float_key xs; n = length s
      in if n = 0 then None
         else if n mod 2 = 1 then Some (s ! (n div 2))
         else float_mean P (s ! (n div 2 - 1)) (s ! (n div 2)))"

text \<open>A Python float as the value of a cell, and \<^verbatim>\<open>f"{val}"\<close> of a float.\<close>

fun float_cell :: "float_val option \<Rightarrow> cell" where
  "float_cell None = Null NaN"
| "float_cell (Some v) = FloatV v"

fun format_float :: "'a pandas_scheme \<Rightarrow> float_val option \<Rightarrow> string" where
  "format_float P None = ''nan''"
| "format_float P (Some v) = str_float P v"

text \<open>\<^verbatim>\<open>Series.mode(dropna=True)\<close>: the most frequent values, in ascending order.\<close>

definition mode :: "'a::linorder list \<Rightarrow> 'a list" where
  "mode xs =
     (let m = fold max (map (count_list xs) xs) 0
      in sort (remdups (filter (\<lambda>v. count_list xs v = m) xs)))"

text \<open>The values \<^verbatim>\<open>median\<close> and the two \<^verbatim>\<open>mode\<close>s read. Pass 5 takes the median of a
  column that has a null, which is a \<^verbatim>\<open>float64\<close> column: an \<^verbatim>\<open>int64\<close> or \<^verbatim>\<open>bool\<close>
  column has none.\<close>

fun numeric_value :: "cell \<Rightarrow> float_val option" where
  "numeric_value (FloatV x) = Some x"
| "numeric_value (IntV i) = Some (Fin (of_int i))"
| "numeric_value (BoolV b) = Some (Fin (if b then 1 else 0))"
| "numeric_value _ = None"

fun timestamp_value :: "cell \<Rightarrow> int option" where
  "timestamp_value (Timestamp t) = Some t"
| "timestamp_value _ = None"

fun string_value :: "cell \<Rightarrow> string option" where
  "string_value (Str s) = Some s"
| "string_value _ = None"

text \<open>\<^verbatim>\<open>pd.api.types.is_numeric_dtype\<close>, \<^verbatim>\<open>is_datetime64_any_dtype\<close>\<close>

definition is_numeric_dtype :: "dtype \<Rightarrow> bool" where
  "is_numeric_dtype d \<longleftrightarrow> d = Int64 \<or> d = Float64 \<or> d = Boolean"

definition is_datetime64_any_dtype :: "dtype \<Rightarrow> bool" where
  "is_datetime64_any_dtype d \<longleftrightarrow> d = Datetime64"

text \<open>
  The last branch takes the mode of the strings of the column: an object column that
  reaches this pass holds strings and null markers only (\<open>trim_col\<close> has made it so).
\<close>

definition impute_col :: "'a pandas_scheme \<Rightarrow> column \<Rightarrow> changes \<Rightarrow> column \<times> changes" where
  "impute_col P c ch =
     (let missing_count = count_na (cvals c) in
      if missing_count = 0 then (c, ch)
      else if is_numeric_dtype (dtype c) then
        (let val = (if list_ex (\<lambda>x. \<not> isna x) (cvals c)
                    then median P (List.map_filter numeric_value (cvals c))
                    else Some (Fin 0))
         in (c\<lparr>cvals := assign_where isna (float_cell val) (cvals c)\<rparr>,
             set_change (cname c) ''imputation_strategy'' (AStr (''median='' @ format_float P val))
               (set_change (cname c) ''imputed_missing'' (AInt missing_count) ch)))
      else if is_datetime64_any_dtype (dtype c) then
        (let val = (case mode (List.map_filter timestamp_value (cvals c)) of
                      [] \<Rightarrow> Null NaT | t # _ \<Rightarrow> Timestamp t)
         in (c\<lparr>cvals := assign_where isna val (cvals c)\<rparr>,
             set_change (cname c) ''imputation_strategy'' (AStr ''mode (datetime)'')
               (set_change (cname c) ''imputed_missing'' (AInt missing_count) ch)))
      else
        (let val = (case mode (List.map_filter string_value (cvals c)) of
                      [] \<Rightarrow> ''Unknown'' | s # _ \<Rightarrow> s)
         in (c\<lparr>cvals := assign_where isna (Str val) (cvals c)\<rparr>,
             set_change (cname c) ''imputation_strategy'' (AStr (''mode='' @ [CHR 0x27] @ val @ [CHR 0x27]))
               (set_change (cname c) ''imputed_missing'' (AInt missing_count) ch))))"

subsection \<open>The pipeline\<close>

definition clean_dataframe :: "'a pandas_scheme \<Rightarrow> frame \<Rightarrow> frame \<times> audit" where
  "clean_dataframe P df =
     (let ch0 = map (\<lambda>c. (cname c, [])) df;
          (df1, ch1) = for_columns (trim_col P) df ch0;
          (df2, ch2) = for_columns (parse_col P) df1 ch1;
          (df3, ch3) = for_columns (email_col P) df2 ch2;
          (df4, removed) = drop_duplicates df3;
          (df5, ch5) = for_columns (impute_col P) df4 ch3
      in (df5,
          \<lparr>rows_before = int (len df),
           rows_after = Some (int (len df5)),
           duplicates_removed = (if removed > 0 then removed else 0),
           columns = map cname df,
           column_changes = ch5,
           issues = []\<rparr>))"

section \<open>The passes, column by column\<close>

text \<open>
  Each loop body reads one column and writes that column and its own entry of
  \<^verbatim>\<open>column_changes\<close>. The functions of this section name the two effects of each body;
  the lemmas \<open>trim_col_eq\<close>, \<open>parse_col_eq\<close>, \<open>email_col_eq\<close> and \<open>impute_col_eq\<close>
  derive them from the bodies above.
\<close>

type_synonym entry = "(string \<times> aval) list"

definition trim_values :: "'a pandas_scheme \<Rightarrow> cell list \<Rightarrow> cell list" where
  "trim_values P vs =
     assign_where (\<lambda>x. x = Str '''') (Null NA)
       (map (str_method str_strip) (map (\<lambda>x. Str (py_str P x)) vs))"

definition trim_delta :: "'a pandas_scheme \<Rightarrow> cell list \<Rightarrow> int" where
  "trim_delta P vs = count_na (trim_values P vs) - count_na vs"

definition trim_column :: "'a pandas_scheme \<Rightarrow> column \<Rightarrow> column" where
  "trim_column P c = (if dtype c = Object then c\<lparr>cvals := trim_values P (cvals c)\<rparr> else c)"

definition trim_entry :: "'a pandas_scheme \<Rightarrow> column \<Rightarrow> entry \<Rightarrow> entry" where
  "trim_entry P c =
     (if dtype c = Object \<and> trim_delta P (cvals c) \<noteq> 0
      then AList.update ''new_nulls_from_empty_strings'' (AInt (trim_delta P (cvals c)))
      else (\<lambda>d. d))"

definition parsed_values :: "'a pandas_scheme \<Rightarrow> cell list \<Rightarrow> cell list" where
  "parsed_values P vs = map (\<lambda>x. cell_of_parsed (to_datetime P vs x)) vs"

definition converted_count :: "'a pandas_scheme \<Rightarrow> cell list \<Rightarrow> int" where
  "converted_count P vs = int (length (filter (\<lambda>x. \<not> isna x) (parsed_values P vs)))"

definition parses :: "'a pandas_scheme \<Rightarrow> column \<Rightarrow> bool" where
  "parses P c \<longleftrightarrow> temporal_name (cname c) \<and> converted_count P (cvals c) > 0"

definition parse_column :: "'a pandas_scheme \<Rightarrow> column \<Rightarrow> column" where
  "parse_column P c =
     (if parses P c then c\<lparr>dtype := Datetime64, cvals := parsed_values P (cvals c)\<rparr> else c)"

definition parse_entry :: "'a pandas_scheme \<Rightarrow> column \<Rightarrow> entry \<Rightarrow> entry" where
  "parse_entry P c =
     (if parses P c
      then AList.update ''parsed_to_datetime'' (AInt (converted_count P (cvals c)))
      else (\<lambda>d. d))"

definition email_applies :: "column \<Rightarrow> bool" where
  "email_applies c \<longleftrightarrow> dtype c = Object \<and> email_name (cname c)"

definition valid_count :: "'a pandas_scheme \<Rightarrow> cell list \<Rightarrow> int" where
  "valid_count P vs = int (length (filter (valid_email P) vs))"

definition email_column :: "column \<Rightarrow> column" where
  "email_column c =
     (if email_applies c then c\<lparr>cvals := map (str_method str_lower) (cvals c)\<rparr> else c)"

definition email_entry :: "'a pandas_scheme \<Rightarrow> column \<Rightarrow> entry \<Rightarrow> entry" where
  "email_entry P c =
     (if email_applies c
      then (\<lambda>d. AList.update ''emails_valid_after''
             (AInt (valid_count P (map (str_method str_lower) (cvals c))))
             (AList.update ''emails_valid_before'' (AInt (valid_count P (cvals c))) d))
      else (\<lambda>d. d))"

definition impute_median :: "'a pandas_scheme \<Rightarrow> column \<Rightarrow> float_val option" where
  "impute_median P c =
     (if list_ex (\<lambda>x. \<not> isna x) (cvals c)
      then median P (List.map_filter numeric_value (cvals c))
      else Some (Fin 0))"

definition impute_text :: "column \<Rightarrow> string" where
  "impute_text c =
     (case mode (List.map_filter string_value (cvals c)) of [] \<Rightarrow> ''Unknown'' | s # _ \<Rightarrow> s)"

definition impute_fill :: "'a pandas_scheme \<Rightarrow> column \<Rightarrow> cell" where
  "impute_fill P c =
     (if is_numeric_dtype (dtype c) then float_cell (impute_median P c)
      else if is_datetime64_any_dtype (dtype c) then
        (case mode (List.map_filter timestamp_value (cvals c)) of
           [] \<Rightarrow> Null NaT | t # _ \<Rightarrow> Timestamp t)
      else Str (impute_text c))"

definition impute_strategy :: "'a pandas_scheme \<Rightarrow> column \<Rightarrow> string" where
  "impute_strategy P c =
     (if is_numeric_dtype (dtype c) then ''median='' @ format_float P (impute_median P c)
      else if is_datetime64_any_dtype (dtype c) then ''mode (datetime)''
      else ''mode='' @ [CHR 0x27] @ impute_text c @ [CHR 0x27])"

definition impute_column :: "'a pandas_scheme \<Rightarrow> column \<Rightarrow> column" where
  "impute_column P c =
     (if count_na (cvals c) = 0 then c
      else c\<lparr>cvals := assign_where isna (impute_fill P c) (cvals c)\<rparr>)"

definition impute_entry :: "'a pandas_scheme \<Rightarrow> column \<Rightarrow> entry \<Rightarrow> entry" where
  "impute_entry P c =
     (if count_na (cvals c) = 0 then (\<lambda>d. d)
      else (\<lambda>d. AList.update ''imputation_strategy'' (AStr (impute_strategy P c))
             (AList.update ''imputed_missing'' (AInt (count_na (cvals c))) d)))"

text \<open>The frame after passes 1 to 3, the rows pass 4 keeps, and the frame after pass 4.\<close>

definition normalized :: "'a pandas_scheme \<Rightarrow> frame \<Rightarrow> frame" where
  "normalized P df = map (\<lambda>c. email_column (parse_column P (trim_column P c))) df"

definition keep_rows :: "frame \<Rightarrow> bool list" where
  "keep_rows df = map Not (duplicated (map norm_col df))"

definition deduped :: "'a pandas_scheme \<Rightarrow> frame \<Rightarrow> frame" where
  "deduped P df =
     map (\<lambda>c. c\<lparr>cvals := select_rows (keep_rows (normalized P df)) (cvals c)\<rparr>) (normalized P df)"

text \<open>
  The rows pass 4 keeps, in the words of the specification. The comparison key of a
  value is its lower-cased, trimmed string in a textual column and the value itself in any
  other column, and all nulls have one key; the rows that stay are those that no earlier
  row equals in every key. (In an object column a value that is neither a string nor null
  has the key of a null, since the \<^verbatim>\<open>.str\<close> methods give NaN for it; pass 1 leaves no such
  value.)
\<close>

definition comparison_key :: "column \<Rightarrow> cell \<Rightarrow> cell option" where
  "comparison_key c x =
     (if dtype c = Object
      then (case x of Str s \<Rightarrow> Some (Str (str_strip (str_lower s))) | _ \<Rightarrow> None)
      else if isna x then None else Some x)"

definition row_key :: "frame \<Rightarrow> nat \<Rightarrow> cell option list" where
  "row_key df i = map (\<lambda>c. comparison_key c (cvals c ! i)) df"

definition first_occurrences :: "frame \<Rightarrow> nat set" where
  "first_occurrences df = {i. i < len df \<and> (\<forall>j<i. row_key df j \<noteq> row_key df i)}"

text \<open>The strings pass 1 leaves in an object column: not empty, and without white space
  at either end.\<close>

definition clean_text :: "string \<Rightarrow> bool" where
  "clean_text s \<longleftrightarrow> s \<noteq> [] \<and> \<not> isspace (hd s) \<and> \<not> isspace (last s)"

definition clean_cell :: "cell \<Rightarrow> bool" where
  "clean_cell x = (case x of Str s \<Rightarrow> clean_text s | Null k \<Rightarrow> k = NA | _ \<Rightarrow> False)"

definition clean_column :: "column \<Rightarrow> bool" where
  "clean_column c \<longleftrightarrow> (dtype c = Object \<longrightarrow> list_all clean_cell (cvals c))"

text \<open>An object column of the cleaned frame holds such strings only.\<close>

definition text_column :: "column \<Rightarrow> bool" where
  "text_column c \<longleftrightarrow>
     (dtype c = Object \<longrightarrow> (\<forall>x\<in>set (cvals c). \<exists>s. x = Str s \<and> clean_text s))"

section \<open>Examples\<close>

text \<open>An instance of the library parameters for the examples: integral floats print as
  Python prints them, the mean is exact, timestamps print as their number of
  nanoseconds, and the parser accepts timestamps and the two dates of the
  \<^verbatim>\<open>created_at\<close> example of the specification.\<close>

definition sample_pandas :: pandas where
  "sample_pandas =
     \<lparr>str_float = (\<lambda>v. case v of Fin x \<Rightarrow> str_int \<lfloor>x\<rfloor> @ ''.0''
                          | PInf \<Rightarrow> ''inf'' | MInf \<Rightarrow> ''-inf''),
      float_mean = (\<lambda>a b. case a of
          Fin x \<Rightarrow> (case b of Fin y \<Rightarrow> Some (Fin ((x + y) / 2)) | _ \<Rightarrow> Some b)
        | PInf \<Rightarrow> (case b of MInf \<Rightarrow> None | _ \<Rightarrow> Some PInf)
        | MInf \<Rightarrow> (case b of PInf \<Rightarrow> None | _ \<Rightarrow> Some MInf)),
      str_timestamp = str_int,
      to_datetime = (\<lambda>col x. case x of
          Timestamp t \<Rightarrow> Some t
        | Str s \<Rightarrow> (if s = ''2023-01-01'' then Some 1672531200000000000
                     else if s = ''2023-02-01'' then Some 1675209600000000000 else None)
        | _ \<Rightarrow> None)\<rparr>"

text \<open>The example of the specification with two rows that differ in case and blanks.\<close>

definition john_frame :: frame where
  "john_frame =
     [\<lparr>cname = ''name'', dtype = Object, cvals = [Str ''John'', Str '' John '']\<rparr>,
      \<lparr>cname = ''email'', dtype = Object, cvals = [Str ''A@X.COM'', Str ''a@x.com'']\<rparr>]"

text \<open>The \<^verbatim>\<open>created_at\<close> example of the specification, after pass 1.\<close>

definition created_frame :: frame where
  "created_frame =
     [\<lparr>cname = ''created_at'', dtype = Object,
       cvals = [Str ''2023-01-01'', Str ''not-a-date'', Str ''2023-02-01'']\<rparr>]"

text \<open>An email column without a valid address.\<close>

definition email_frame :: frame where
  "email_frame = [\<lparr>cname = ''Email'', dtype = Object, cvals = [Str ''BAD'', Null NA]\<rparr>]"

text \<open>The numeric example of the specification.\<close>

definition float_frame :: frame where
  "float_frame =
     [\<lparr>cname = ''v'', dtype = Float64, cvals = [FloatV (Fin 10), FloatV (Fin 20), Null NaN]\<rparr>]"

text \<open>Frames without rows, as \<^verbatim>\<open>pd.read_csv\<close> gives for a file that has only a header.\<close>

definition empty_email_frame :: frame where
  "empty_email_frame = [\<lparr>cname = ''email'', dtype = Object, cvals = []\<rparr>]"

definition zero_rows_frame :: frame where
  "zero_rows_frame =
     [\<lparr>cname = ''Email'', dtype = Object, cvals = []\<rparr>,
      \<lparr>cname = ''amount'', dtype = Float64, cvals = []\<rparr>]"

text \<open>A frame with a temporal column that is entirely null.\<close>

definition unset_dates_frame :: frame where
  "unset_dates_frame =
     [\<lparr>cname = ''id'', dtype = Int64, cvals = [IntV 1, IntV 2]\<rparr>,
      \<lparr>cname = ''created_at'', dtype = Datetime64, cvals = [Null NaT, Null NaT]\<rparr>]"

text \<open>Two rows that differ only in a value that is missing in one of them.\<close>

definition gap_frame :: frame where
  "gap_frame =
     [\<lparr>cname = ''a'', dtype = Float64, cvals = [FloatV (Fin 1), FloatV (Fin 1)]\<rparr>,
      \<lparr>cname = ''b'', dtype = Float64, cvals = [Null NaN, FloatV (Fin 5)]\<rparr>]"

section \<open>Properties\<close>

subsection \<open>The loops as maps and folds\<close>

lemma map_entry_ident: "AList.map_entry k (\<lambda>d. d) ch = ch"
  by (induction ch) auto

lemma map_entry_comp:
  "AList.map_entry k f (AList.map_entry k g ch) = AList.map_entry k (\<lambda>d. f (g d)) ch"
  by (induction ch) auto

lemma trim_col_eq:
  "trim_col P c ch = (trim_column P c, AList.map_entry (cname c) (trim_entry P c) ch)"
  by (simp add: trim_col_def trim_column_def trim_entry_def trim_delta_def trim_values_def
      set_change_def map_entry_ident Let_def)

lemma parse_col_eq:
  "parse_col P c ch = (parse_column P c, AList.map_entry (cname c) (parse_entry P c) ch)"
  unfolding parse_col_def parse_column_def parse_entry_def parses_def converted_count_def
    parsed_values_def set_change_def Let_def
  by (simp only: map_entry_ident if_distrib split: if_splits) simp

lemma email_col_eq:
  "email_col P c ch = (email_column c, AList.map_entry (cname c) (email_entry P c) ch)"
  by (simp add: email_col_def email_column_def email_entry_def email_applies_def valid_count_def
      set_change_def map_entry_ident map_entry_comp Let_def)

lemma impute_col_eq:
  "impute_col P c ch = (impute_column P c, AList.map_entry (cname c) (impute_entry P c) ch)"
  by (simp add: impute_col_def impute_column_def impute_entry_def impute_fill_def
      impute_strategy_def impute_median_def impute_text_def set_change_def map_entry_ident
      map_entry_comp Let_def split: list.splits)

lemma for_columns_eq:
  assumes "\<And>c ch. body c ch = (colf c, AList.map_entry (cname c) (entf c) ch)"
  shows "for_columns body df ch =
           (map colf df, fold (\<lambda>c. AList.map_entry (cname c) (entf c)) df ch)"
  by (induction df arbitrary: ch) (simp_all add: assms)

lemma map_of_fold_other:
  "k \<notin> cname ` set df \<Longrightarrow>
     map_of (fold (\<lambda>c. AList.map_entry (cname c) (entf c)) df ch) k = map_of ch k"
  by (induction df arbitrary: ch) (auto simp: map_of_map_entry)

lemma map_of_fold_entry:
  "distinct (map cname df) \<Longrightarrow> c \<in> set df \<Longrightarrow>
     map_of (fold (\<lambda>c. AList.map_entry (cname c) (entf c)) df ch) (cname c) =
       map_option (entf c) (map_of ch (cname c))"
proof (induction df arbitrary: ch)
  case Nil
  then show ?case by simp
next
  case (Cons a df)
  show ?case
  proof (cases "c = a")
    case True
    with Cons.prems have "cname a \<notin> cname ` set df" by auto
    with True show ?thesis
      by (simp add: map_of_fold_other map_of_map_entry split: option.splits)
  next
    case False
    with Cons.prems have in_df: "c \<in> set df" by simp
    from Cons.prems have "cname a \<notin> cname ` set df" by auto
    with in_df have "cname c \<noteq> cname a" by (metis imageI)
    with Cons in_df show ?thesis by (simp add: map_of_map_entry)
  qed
qed


lemma map_of_fold_nth:
  assumes "distinct (map cname df)" "i < length df"
  shows "map_of (fold (\<lambda>c. AList.map_entry (cname c) (entf c)) df ch) (cname (df ! i)) =
           map_option (entf (df ! i)) (map_of ch (cname (df ! i)))"
  using assms by (simp add: map_of_fold_entry)

lemma map_of_initial:
  "map_of (map (\<lambda>c. (cname c, [])) df) k = (if k \<in> cname ` set df then Some [] else None)"
  by (induction df) auto

lemma cname_trim_column [simp]: "cname (trim_column P c) = cname c"
  by (simp add: trim_column_def)

lemma cname_parse_column [simp]: "cname (parse_column P c) = cname c"
  by (simp add: parse_column_def)

lemma cname_email_column [simp]: "cname (email_column c) = cname c"
  by (simp add: email_column_def)

lemma cname_impute_column [simp]: "cname (impute_column P c) = cname c"
  by (simp add: impute_column_def)

lemma length_trim_column [simp]: "length (cvals (trim_column P c)) = length (cvals c)"
  by (simp add: trim_column_def trim_values_def assign_where_def)

lemma length_parse_column [simp]: "length (cvals (parse_column P c)) = length (cvals c)"
  by (simp add: parse_column_def parsed_values_def)

lemma length_email_column [simp]: "length (cvals (email_column c)) = length (cvals c)"
  by (simp add: email_column_def)

lemma length_impute_column [simp]: "length (cvals (impute_column P c)) = length (cvals c)"
  by (simp add: impute_column_def assign_where_def)

lemma len_map:
  assumes "\<And>c. length (cvals (f c)) = length (cvals c)"
  shows "len (map f df) = len df"
  by (cases df) (simp_all add: len_def assms)

lemma drop_duplicates_eq:
  "drop_duplicates df =
     (map (\<lambda>c. c\<lparr>cvals := select_rows (keep_rows df) (cvals c)\<rparr>) df,
      int (len df) - int (len (map (\<lambda>c. c\<lparr>cvals := select_rows (keep_rows df) (cvals c)\<rparr>) df)))"
  by (simp add: drop_duplicates_def keep_rows_def Let_def)

lemma length_select_rows_le: "length (select_rows keep vs) \<le> length vs"
proof -
  have "length (filter snd (zip vs keep)) \<le> length (zip vs keep)" by (rule length_filter_le)
  then show ?thesis by (simp add: select_rows_def)
qed

lemma len_deduped_le: "len (deduped P df) \<le> len (normalized P df)"
  by (cases "normalized P df") (simp_all add: deduped_def len_def length_select_rows_le)

lemma len_normalized: "len (normalized P df) = len df"
  by (simp add: normalized_def len_map)

lemma clean_dataframe_eq:
  "clean_dataframe P df =
     (map (impute_column P) (deduped P df),
      \<lparr>rows_before = int (len df),
       rows_after = Some (int (len (deduped P df))),
       duplicates_removed = int (len df) - int (len (deduped P df)),
       columns = map cname df,
       column_changes =
         fold (\<lambda>c. AList.map_entry (cname c) (impute_entry P c)) (deduped P df)
           (fold (\<lambda>c. AList.map_entry (cname c) (email_entry P c))
              (map (parse_column P) (map (trim_column P) df))
              (fold (\<lambda>c. AList.map_entry (cname c) (parse_entry P c)) (map (trim_column P) df)
                 (fold (\<lambda>c. AList.map_entry (cname c) (trim_entry P c)) df
                    (map (\<lambda>c. (cname c, [])) df)))),
       issues = []\<rparr>)"
proof -
  have le: "int (len (deduped P df)) \<le> int (len df)"
    using len_deduped_le [of P df] by (simp add: len_normalized)
  have norm: "map email_column (map (parse_column P) (map (trim_column P) df)) = normalized P df"
    by (simp add: normalized_def)
  show ?thesis
    unfolding clean_dataframe_def
    apply (simp only: for_columns_eq [OF trim_col_eq] for_columns_eq [OF parse_col_eq]
        for_columns_eq [OF email_col_eq] for_columns_eq [OF impute_col_eq]
        drop_duplicates_eq Let_def prod.case norm deduped_def [symmetric] len_normalized)
    using le by (simp add: len_map)
qed

lemma for_columns_nth:
  assumes body: "\<And>c ch. body c ch = (colf c, AList.map_entry (cname c) (entf c) ch)"
    and "distinct (map cname df)" "i < length df"
  shows "fst (for_columns body df ch) ! i = colf (df ! i)"
    and "map_of (snd (for_columns body df ch)) (cname (df ! i)) =
           map_option (entf (df ! i)) (map_of ch (cname (df ! i)))"
    and "length (fst (for_columns body df ch)) = length df"
  using assms(2,3) by (simp_all add: for_columns_eq [OF body] map_of_fold_nth)

lemma map_of_key_ex: "k \<in> fst ` set ch \<Longrightarrow> \<exists>d. map_of ch k = Some d"
  by (metis domD dom_map_of_conv_image_fst)

lemma filter_not_isna_parsed:
  "filter (\<lambda>x. \<not> isna x) (parsed_values P vs) =
     map (\<lambda>x. cell_of_parsed (to_datetime P vs x)) (filter (\<lambda>x. to_datetime P vs x \<noteq> None) vs)"
proof -
  have "\<not> isna (cell_of_parsed y) \<longleftrightarrow> y \<noteq> None" for y by (cases y) simp_all
  then show ?thesis by (simp add: parsed_values_def filter_map comp_def)
qed

lemma converted_count_eq:
  "converted_count P vs = int (length (filter (\<lambda>x. to_datetime P vs x \<noteq> None) vs))"
  by (simp add: converted_count_def filter_not_isna_parsed)

lemma parses_iff:
  "parses P c \<longleftrightarrow> temporal_name (cname c) \<and> (\<exists>x\<in>set (cvals c). to_datetime P (cvals c) x \<noteq> None)"
  by (auto simp: parses_def converted_count_eq filter_empty_conv)

lemma cell_of_parsed_case:
  "cell_of_parsed y = (case y of None \<Rightarrow> Null NaT | Some t \<Rightarrow> Timestamp t)"
  by (cases y) simp_all





lemma parse_nth_col:
  assumes "distinct (map cname df)" and "i < length df"
  shows "fst (for_columns (parse_col P) df ch) ! i = parse_column P (df ! i)"
  by (rule for_columns_nth(1) [OF parse_col_eq assms(1,2)])

lemma parse_nth_entry:
  assumes "distinct (map cname df)" and "i < length df"
  shows "map_of (snd (for_columns (parse_col P) df ch)) (cname (df ! i)) =
           map_option (parse_entry P (df ! i)) (map_of ch (cname (df ! i)))"
  by (rule for_columns_nth(2) [OF parse_col_eq assms(1,2)])

lemma parse_length:
  "length (fst (for_columns (parse_col P) df ch)) = length df"
  by (simp add: for_columns_eq [OF parse_col_eq])

lemma parse_column_True:
  "parses P c \<Longrightarrow> parse_column P c =
     c\<lparr>dtype := Datetime64,
       cvals := map (\<lambda>x. case to_datetime P (cvals c) x of
                            None \<Rightarrow> Null NaT | Some t \<Rightarrow> Timestamp t) (cvals c)\<rparr>"
  by (simp add: parse_column_def parsed_values_def cell_of_parsed_case)

lemma parse_entry_True:
  "parses P c \<Longrightarrow> map_of (parse_entry P c d) ''parsed_to_datetime'' =
     Some (AInt (int (length (filter (\<lambda>x. to_datetime P (cvals c) x \<noteq> None) (cvals c)))))"
  by (simp add: parse_entry_def update_conv' converted_count_eq)


lemma parse_column_False: "\<not> parses P c \<Longrightarrow> parse_column P c = c"
  by (simp add: parse_column_def)

lemma parse_entry_False: "\<not> parses P c \<Longrightarrow> parse_entry P c d = d"
  by (simp add: parse_entry_def)

subsection \<open>Row counts\<close>

text \<open>
  C2. The audit satisfies \<open>rows_after = rows_before - duplicates_removed\<close>, where
  \<open>rows_after\<close> is the number of rows of the returned frame; passes 1, 2, 3 and 5 return a
  frame with as many rows as they are given, and the count of pass 4 is the number of rows
  it drops.
\<close>

theorem rows_after_is_rows_before_minus_duplicates:
  "rows_after (snd (clean_dataframe P df)) =
     Some (rows_before (snd (clean_dataframe P df)) - duplicates_removed (snd (clean_dataframe P df)))
   \<and> rows_after (snd (clean_dataframe P df)) = Some (int (len (fst (clean_dataframe P df))))
   \<and> rows_before (snd (clean_dataframe P df)) = int (len df)
   \<and> len (fst (for_columns (trim_col P) df ch)) = len df
   \<and> len (fst (for_columns (parse_col P) df ch)) = len df
   \<and> len (fst (for_columns (email_col P) df ch)) = len df
   \<and> len (fst (for_columns (impute_col P) df ch)) = len df
   \<and> snd (drop_duplicates df) = int (len df) - int (len (fst (drop_duplicates df)))"
  by (simp add: clean_dataframe_eq for_columns_eq [OF trim_col_eq] for_columns_eq [OF parse_col_eq]
      for_columns_eq [OF email_col_eq] for_columns_eq [OF impute_col_eq] len_map
      drop_duplicates_eq)

theorem rows_after_is_rows_before_minus_duplicates_witness:
  "rows_after (snd (clean_dataframe sample_pandas john_frame)) = Some (2 - 1)
   \<and> rows_before (snd (clean_dataframe sample_pandas john_frame)) = 2
   \<and> duplicates_removed (snd (clean_dataframe sample_pandas john_frame)) = 1"
proof -
  have "rows_before (snd (clean_dataframe sample_pandas john_frame)) = 2"
    by code_simp
  moreover have "duplicates_removed (snd (clean_dataframe sample_pandas john_frame)) = 1"
    by code_simp
  ultimately show ?thesis
    using rows_after_is_rows_before_minus_duplicates [of sample_pandas john_frame]
    by simp
qed

subsection \<open>Pass 2: the temporal parser\<close>

text \<open>
  C7. Pass 2 changes a column exactly when its name, in lower case, contains \<^verbatim>\<open>date\<close>,
  \<^verbatim>\<open>_at\<close> or \<^verbatim>\<open>time\<close> and at least one of its values parses. Then the column holds the
  parsed timestamps, NaT where a value does not parse, and \<^verbatim>\<open>parsed_to_datetime\<close> is the
  number of values that parse. Any other column, and its entry of the audit, is as before.
\<close>

theorem temporal_parser_effect:
  assumes "distinct (map cname df)" and "i < length df" and "cname (df ! i) \<in> fst ` set ch"
  shows "let c = df ! i;
             df' = fst (for_columns (parse_col P) df ch);
             ch' = snd (for_columns (parse_col P) df ch)
         in length df' = length df \<and>
            (if temporal_name (cname c) \<and> (\<exists>x\<in>set (cvals c). to_datetime P (cvals c) x \<noteq> None)
             then df' ! i =
                    c\<lparr>dtype := Datetime64,
                      cvals := map (\<lambda>x. case to_datetime P (cvals c) x of
                                           None \<Rightarrow> Null NaT | Some t \<Rightarrow> Timestamp t) (cvals c)\<rparr> \<and>
                  get_change ch' (cname c) ''parsed_to_datetime'' =
                    Some (AInt (int (length (filter (\<lambda>x. to_datetime P (cvals c) x \<noteq> None) (cvals c)))))
             else df' ! i = c \<and> map_of ch' (cname c) = map_of ch (cname c))"
proof -
  obtain d where d: "map_of ch (cname (df ! i)) = Some d"
    using map_of_key_ex [OF assms(3)] ..
  have ent: "map_of (snd (for_columns (parse_col P) df ch)) (cname (df ! i)) =
               Some (parse_entry P (df ! i) d)"
    by (simp only: parse_nth_entry [OF assms(1,2)] d option.map)
  show ?thesis
  proof (cases "parses P (df ! i)")
    case True
    have cond: "temporal_name (cname (df ! i)) \<and>
        (\<exists>x\<in>set (cvals (df ! i)). to_datetime P (cvals (df ! i)) x \<noteq> None)"
      by (rule True [unfolded parses_iff])
    have "get_change (snd (for_columns (parse_col P) df ch)) (cname (df ! i))
            ''parsed_to_datetime'' =
          Some (AInt (int (length (filter (\<lambda>x. to_datetime P (cvals (df ! i)) x \<noteq> None)
                                     (cvals (df ! i))))))"
      by (simp only: get_change_def ent option.case parse_entry_True [OF True])
    then show ?thesis
      by (simp only: Let_def cond if_True parse_length parse_nth_col [OF assms(1,2)]
          parse_column_True [OF True] simp_thms)
  next
    case False
    have cond: "\<not> (temporal_name (cname (df ! i)) \<and>
        (\<exists>x\<in>set (cvals (df ! i)). to_datetime P (cvals (df ! i)) x \<noteq> None))"
      by (rule False [unfolded parses_iff])
    show ?thesis
      by (simp only: Let_def cond if_False parse_length parse_nth_col [OF assms(1,2)]
          parse_column_False [OF False] ent parse_entry_False [OF False] d simp_thms)
  qed
qed

theorem temporal_parser_effect_witness:
  "distinct (map cname created_frame) \<and> 0 < length created_frame \<and>
   cname (created_frame ! 0) \<in> fst ` set [(''created_at'', [])] \<and>
   fst (for_columns (parse_col sample_pandas) created_frame [(''created_at'', [])]) ! 0 =
     \<lparr>cname = ''created_at'', dtype = Datetime64,
      cvals = [Timestamp 1672531200000000000, Null NaT, Timestamp 1675209600000000000]\<rparr> \<and>
   get_change (snd (for_columns (parse_col sample_pandas) created_frame [(''created_at'', [])]))
     ''created_at'' ''parsed_to_datetime'' = Some (AInt 2)"
proof -
  have h1: "distinct (map cname created_frame)"
    by (simp add: created_frame_def)
  have h2: "0 < length created_frame"
    by (simp add: created_frame_def)
  have h3: "cname (created_frame ! 0) \<in> fst ` set [(''created_at'', [])]"
    by (simp add: created_frame_def)
  have name: "temporal_name ''created_at''"
    by code_simp
  show ?thesis
    using temporal_parser_effect [OF h1 h2 h3, of sample_pandas] h1 h2 h3 name
    by (simp add: Let_def created_frame_def sample_pandas_def)
qed

subsection \<open>Pass 3: the email normaliser\<close>

lemma email_column_applies:
  "email_applies c \<Longrightarrow> email_column c = c\<lparr>cvals := map (str_method str_lower) (cvals c)\<rparr>"
  by (simp add: email_column_def)

lemma email_entry_before:
  "email_applies c \<Longrightarrow> map_of (email_entry P c d) ''emails_valid_before'' =
     Some (AInt (int (length (filter (valid_email P) (cvals c)))))"
  by (simp add: email_entry_def update_conv' valid_count_def)

lemma email_entry_after:
  "email_applies c \<Longrightarrow> map_of (email_entry P c d) ''emails_valid_after'' =
     Some (AInt (int (length (filter (valid_email P) (map (str_method str_lower) (cvals c))))))"
  by (simp add: email_entry_def update_conv' valid_count_def)

lemma str_method_null: "isna x \<Longrightarrow> str_method f x = x"
  by (cases x) simp_all


text \<open>
  C8. For an object column whose name, in lower case, contains \<^verbatim>\<open>email\<close>, pass 3 records
  \<^verbatim>\<open>emails_valid_before\<close>, the number of valid values of the column, and
  \<^verbatim>\<open>emails_valid_after\<close>, the number of valid values of the column it writes, whatever the
  two counts are; every string of the column is replaced by its lower case, valid or not,
  and the null markers stay.
\<close>

theorem email_normalizer_effect:
  assumes "distinct (map cname df)" and "i < length df" and "cname (df ! i) \<in> fst ` set ch"
    and "dtype (df ! i) = Object" and "email_name (cname (df ! i))"
  shows "let c = df ! i;
             df' = fst (for_columns (email_col P) df ch);
             ch' = snd (for_columns (email_col P) df ch)
         in get_change ch' (cname c) ''emails_valid_before'' =
              Some (AInt (int (length (filter (valid_email P) (cvals c))))) \<and>
            get_change ch' (cname c) ''emails_valid_after'' =
              Some (AInt (int (length (filter (valid_email P) (cvals (df' ! i)))))) \<and>
            length (cvals (df' ! i)) = length (cvals c) \<and>
            (\<forall>j<length (cvals c). \<forall>s. cvals c ! j = Str s \<longrightarrow> cvals (df' ! i) ! j = Str (str_lower s)) \<and>
            (\<forall>j<length (cvals c). isna (cvals c ! j) \<longrightarrow> cvals (df' ! i) ! j = cvals c ! j)"
proof -
  obtain d where d: "map_of ch (cname (df ! i)) = Some d"
    using map_of_key_ex [OF assms(3)] ..
  have app: "email_applies (df ! i)"
    using assms(4,5) by (simp add: email_applies_def)
  have col: "fst (for_columns (email_col P) df ch) ! i =
               (df ! i)\<lparr>cvals := map (str_method str_lower) (cvals (df ! i))\<rparr>"
    by (simp only: for_columns_nth(1) [OF email_col_eq assms(1,2)] email_column_applies [OF app])
  have ent: "map_of (snd (for_columns (email_col P) df ch)) (cname (df ! i)) =
               Some (email_entry P (df ! i) d)"
    by (simp only: for_columns_nth(2) [OF email_col_eq assms(1,2)] d option.map)
  have before: "get_change (snd (for_columns (email_col P) df ch)) (cname (df ! i))
      ''emails_valid_before'' = Some (AInt (int (length (filter (valid_email P) (cvals (df ! i))))))"
    by (simp only: get_change_def ent option.case email_entry_before [OF app])
  have after: "get_change (snd (for_columns (email_col P) df ch)) (cname (df ! i))
      ''emails_valid_after'' =
        Some (AInt (int (length (filter (valid_email P)
          (cvals (fst (for_columns (email_col P) df ch) ! i))))))"
    by (simp add: get_change_def ent email_entry_after [OF app] col)
  have vals: "cvals (fst (for_columns (email_col P) df ch) ! i) =
                map (str_method str_lower) (cvals (df ! i))"
    by (simp add: col)
  have strs: "\<forall>j<length (cvals (df ! i)). \<forall>s. cvals (df ! i) ! j = Str s \<longrightarrow>
      cvals (fst (for_columns (email_col P) df ch) ! i) ! j = Str (str_lower s)"
    by (simp add: vals)
  have nulls: "\<forall>j<length (cvals (df ! i)). isna (cvals (df ! i) ! j) \<longrightarrow>
      cvals (fst (for_columns (email_col P) df ch) ! i) ! j = cvals (df ! i) ! j"
    by (simp add: vals str_method_null)
  have len: "length (cvals (fst (for_columns (email_col P) df ch) ! i)) = length (cvals (df ! i))"
    by (simp add: vals)
  show ?thesis
    unfolding Let_def using before after len strs nulls by (intro conjI)
qed

theorem email_normalizer_effect_witness:
  "distinct (map cname email_frame) \<and> 0 < length email_frame \<and>
   cname (email_frame ! 0) \<in> fst ` set [(''Email'', [])] \<and>
   dtype (email_frame ! 0) = Object \<and> email_name (cname (email_frame ! 0)) \<and>
   get_change (snd (for_columns (email_col sample_pandas) email_frame [(''Email'', [])]))
     ''Email'' ''emails_valid_before'' = Some (AInt 0) \<and>
   get_change (snd (for_columns (email_col sample_pandas) email_frame [(''Email'', [])]))
     ''Email'' ''emails_valid_after'' = Some (AInt 0) \<and>
   cvals (fst (for_columns (email_col sample_pandas) email_frame [(''Email'', [])]) ! 0) ! 0 =
     Str ''bad''"
proof -
  have h1: "distinct (map cname email_frame)"
    by (simp add: email_frame_def)
  have h2: "0 < length email_frame"
    by (simp add: email_frame_def)
  have h3: "cname (email_frame ! 0) \<in> fst ` set [(''Email'', [])]"
    by (simp add: email_frame_def)
  have h4: "dtype (email_frame ! 0) = Object"
    by (simp add: email_frame_def)
  have h5: "email_name (cname (email_frame ! 0))"
    by code_simp
  note e = email_normalizer_effect [OF h1 h2 h3 h4 h5, of sample_pandas, unfolded Let_def]
  have name: "cname (email_frame ! 0) = ''Email''"
    by (simp add: email_frame_def)
  have v0: "filter (valid_email sample_pandas) (cvals (email_frame ! 0)) = []"
    by code_simp
  have low: "str_lower ''BAD'' = ''bad''"
    by code_simp
  have c0: "cvals (email_frame ! 0) ! 0 = Str ''BAD''" "0 < length (cvals (email_frame ! 0))"
    by (simp_all add: email_frame_def)
  from e c0 have l0: "cvals (fst (for_columns (email_col sample_pandas) email_frame
      [(''Email'', [])]) ! 0) ! 0 = Str (str_lower ''BAD'')"
    by blast
  have v1: "filter (valid_email sample_pandas)
      (cvals (fst (for_columns (email_col sample_pandas) email_frame [(''Email'', [])]) ! 0)) = []"
    by code_simp
  from e have "get_change (snd (for_columns (email_col sample_pandas) email_frame
      [(''Email'', [])])) ''Email'' ''emails_valid_before'' = Some (AInt 0)"
    by (simp add: name v0)
  moreover from e have "get_change (snd (for_columns (email_col sample_pandas) email_frame
      [(''Email'', [])])) ''Email'' ''emails_valid_after'' = Some (AInt 0)"
    by (simp add: name v1)
  ultimately show ?thesis
    using h1 h2 h3 h4 h5 l0 low by simp
qed

subsection \<open>Pass 5: the imputer on numeric columns\<close>

lemma count_na_pos: "list_ex isna vs \<Longrightarrow> count_na vs \<noteq> 0"
  by (auto simp: count_na_def list_ex_iff filter_empty_conv)

lemma numeric_value_null: "isna x \<Longrightarrow> numeric_value x = None"
  by (cases x) simp_all

lemma map_filter_Nil: "List.map_filter f xs = [] \<longleftrightarrow> (\<forall>x\<in>set xs. f x = None)"
  by (induction xs) (auto simp: List.map_filter_simps split: option.splits)

lemma map_filter_notna:
  "(\<And>x. isna x \<Longrightarrow> f x = None) \<Longrightarrow>
     List.map_filter f (filter (\<lambda>x. \<not> isna x) xs) = List.map_filter f xs"
  by (induction xs) (simp_all add: List.map_filter_simps split: option.splits)

lemma all_null_iff: "list_all isna vs \<longleftrightarrow> \<not> list_ex (\<lambda>x. \<not> isna x) vs"
  by (simp add: list_all_iff list_ex_iff)

lemma impute_median_eq:
  "impute_median P c =
     (if list_all isna (cvals c) then Some (Fin 0)
      else median P (List.map_filter numeric_value (filter (\<lambda>x. \<not> isna x) (cvals c))))"
  by (simp add: impute_median_def all_null_iff map_filter_notna numeric_value_null)

lemma impute_column_missing:
  "list_ex isna (cvals c) \<Longrightarrow>
     impute_column P c = c\<lparr>cvals := assign_where isna (impute_fill P c) (cvals c)\<rparr>"
  by (simp add: impute_column_def count_na_pos)

lemma impute_entry_missing:
  assumes "list_ex isna (cvals c)"
  shows "map_of (impute_entry P c d) ''imputed_missing'' = Some (AInt (count_na (cvals c)))"
    and "map_of (impute_entry P c d) ''imputation_strategy'' = Some (AStr (impute_strategy P c))"
  using count_na_pos [OF assms] by (simp_all add: impute_entry_def update_conv')

lemma assign_where_no_null:
  "\<not> isna v \<Longrightarrow> list_all (\<lambda>x. \<not> isna x) (assign_where isna v vs)"
  by (induction vs) (simp_all add: assign_where_def)

lemma float_cell_isna: "isna (float_cell v) \<longleftrightarrow> v = None"
  by (cases v) simp_all


text \<open>
  C9. For a numeric column with at least one null, pass 5 replaces every null by the
  median of the values that are not null, and by 0 when there is none;
  \<^verbatim>\<open>imputed_missing\<close> is the number of nulls of the column and \<^verbatim>\<open>imputation_strategy\<close> is
  \<^verbatim>\<open>median=\<close> followed by the printed value. A numeric column with a null is a
  \<^verbatim>\<open>float64\<close> column, and the median is a float: where it is NaN the nulls are replaced
  by NaN, and where it is not, no null is left. On the column
  \<^verbatim>\<open>[10, 20, null]\<close> the value is 15, one null is filled, and the strategy is
  \<^verbatim>\<open>median=15.0\<close>, where the mean of 10 and 20 is 15 and Python prints the float 15 as
  \<^verbatim>\<open>15.0\<close>.
\<close>

theorem imputer_numeric_effect:
  assumes "distinct (map cname df)" and "i < length df" and "cname (df ! i) \<in> fst ` set ch"
    and "is_numeric_dtype (dtype (df ! i))" and "list_ex isna (cvals (df ! i))"
    and "well_typed (df ! i)"
  shows "let c = df ! i;
             df' = fst (for_columns (impute_col P) df ch);
             ch' = snd (for_columns (impute_col P) df ch);
             present = List.map_filter numeric_value (filter (\<lambda>x. \<not> isna x) (cvals c));
             val = (if list_all isna (cvals c) then Some (Fin 0) else median P present)
         in cvals (df' ! i) = map (\<lambda>x. if isna x then float_cell val else x) (cvals c) \<and>
            (val \<noteq> None \<longrightarrow> list_all (\<lambda>x. \<not> isna x) (cvals (df' ! i))) \<and>
            get_change ch' (cname c) ''imputed_missing'' =
              Some (AInt (int (length (filter isna (cvals c))))) \<and>
            get_change ch' (cname c) ''imputation_strategy'' =
              Some (AStr (''median='' @ format_float P val)) \<and>
            (float_mean P (Fin 10) (Fin 20) = Some (Fin 15) \<and> str_float P (Fin 15) = ''15.0'' \<longrightarrow>
             for_columns (impute_col P)
               [\<lparr>cname = ''v'', dtype = Float64,
                 cvals = [FloatV (Fin 10), FloatV (Fin 20), Null NaN]\<rparr>]
               [(''v'', [])] =
             ([\<lparr>cname = ''v'', dtype = Float64,
                cvals = [FloatV (Fin 10), FloatV (Fin 20), FloatV (Fin 15)]\<rparr>],
              [(''v'', [(''imputed_missing'', AInt 1),
                        (''imputation_strategy'', AStr ''median=15.0'')])]))"
proof -
  let ?c = "df ! i"
  let ?present = "List.map_filter numeric_value (filter (\<lambda>x. \<not> isna x) (cvals ?c))"
  let ?val = "if list_all isna (cvals ?c) then Some (Fin 0) else median P ?present"
  obtain d where d: "map_of ch (cname ?c) = Some d"
    using map_of_key_ex [OF assms(3)] ..
  have val: "impute_median P ?c = ?val"
    by (rule impute_median_eq)
  have fill: "impute_fill P ?c = float_cell ?val"
    using assms(4) by (simp only: impute_fill_def val if_True)
  have col: "fst (for_columns (impute_col P) df ch) ! i =
               ?c\<lparr>cvals := assign_where isna (float_cell ?val) (cvals ?c)\<rparr>"
    by (simp only: for_columns_nth(1) [OF impute_col_eq assms(1,2)]
        impute_column_missing [OF assms(5)] fill)
  have ent: "map_of (snd (for_columns (impute_col P) df ch)) (cname ?c) =
               Some (impute_entry P ?c d)"
    by (simp only: for_columns_nth(2) [OF impute_col_eq assms(1,2)] d option.map)
  have strat: "impute_strategy P ?c = ''median='' @ format_float P ?val"
    using assms(4) by (simp only: impute_strategy_def val if_True)
  have 1: "cvals (fst (for_columns (impute_col P) df ch) ! i) =
             map (\<lambda>x. if isna x then float_cell ?val else x) (cvals ?c)"
    by (simp add: col assign_where_def)
  have 2: "?val \<noteq> None \<longrightarrow>
             list_all (\<lambda>x. \<not> isna x) (cvals (fst (for_columns (impute_col P) df ch) ! i))"
  proof
    assume "?val \<noteq> None"
    then have "\<not> isna (float_cell ?val)" by (simp only: float_cell_isna not_False_eq_True)
    then have "list_all (\<lambda>x. \<not> isna x) (assign_where isna (float_cell ?val) (cvals ?c))"
      by (rule assign_where_no_null)
    then show "list_all (\<lambda>x. \<not> isna x) (cvals (fst (for_columns (impute_col P) df ch) ! i))"
      by (simp add: col)
  qed
  have 3: "get_change (snd (for_columns (impute_col P) df ch)) (cname ?c) ''imputed_missing'' =
             Some (AInt (int (length (filter isna (cvals ?c)))))"
    by (simp only: get_change_def ent option.case impute_entry_missing(1) [OF assms(5)]
        count_na_def)
  have 4: "get_change (snd (for_columns (impute_col P) df ch)) (cname ?c)
             ''imputation_strategy'' = Some (AStr (''median='' @ format_float P ?val))"
    by (simp only: get_change_def ent option.case impute_entry_missing(2) [OF assms(5)] strat)
  have 5: "float_mean P (Fin 10) (Fin 20) = Some (Fin 15) \<and> str_float P (Fin 15) = ''15.0'' \<longrightarrow>
             for_columns (impute_col P)
               [\<lparr>cname = ''v'', dtype = Float64,
                 cvals = [FloatV (Fin 10), FloatV (Fin 20), Null NaN]\<rparr>]
               [(''v'', [])] =
             ([\<lparr>cname = ''v'', dtype = Float64,
                cvals = [FloatV (Fin 10), FloatV (Fin 20), FloatV (Fin 15)]\<rparr>],
              [(''v'', [(''imputed_missing'', AInt 1),
                        (''imputation_strategy'', AStr ''median=15.0'')])])"
    by (simp add: impute_col_def count_na_def is_numeric_dtype_def median_def
        List.map_filter_simps assign_where_def set_change_def Let_def)
  show ?thesis
    unfolding Let_def using 1 2 3 4 5 by (intro conjI)
qed

theorem imputer_numeric_effect_witness:
  "distinct (map cname float_frame) \<and> 0 < length float_frame \<and>
   cname (float_frame ! 0) \<in> fst ` set [(''v'', [])] \<and>
   is_numeric_dtype (dtype (float_frame ! 0)) \<and>
   list_ex isna (cvals (float_frame ! 0)) \<and>
   well_typed (float_frame ! 0) \<and>
   float_mean sample_pandas (Fin 10) (Fin 20) = Some (Fin 15) \<and>
   str_float sample_pandas (Fin 15) = ''15.0'' \<and>
   (if list_all isna (cvals (float_frame ! 0)) then Some (Fin 0)
    else median sample_pandas (List.map_filter numeric_value
           (filter (\<lambda>x. \<not> isna x) (cvals (float_frame ! 0))))) \<noteq> None \<and>
   list_all (\<lambda>x. \<not> isna x)
     (cvals (fst (for_columns (impute_col sample_pandas) float_frame [(''v'', [])]) ! 0)) \<and>
   for_columns (impute_col sample_pandas)
     [\<lparr>cname = ''v'', dtype = Float64, cvals = [FloatV (Fin 10), FloatV (Fin 20), Null NaN]\<rparr>]
     [(''v'', [])] =
   ([\<lparr>cname = ''v'', dtype = Float64,
      cvals = [FloatV (Fin 10), FloatV (Fin 20), FloatV (Fin 15)]\<rparr>],
    [(''v'', [(''imputed_missing'', AInt 1), (''imputation_strategy'', AStr ''median=15.0'')])])"
proof -
  have h1: "distinct (map cname float_frame)"
    by (simp add: float_frame_def)
  have h2: "0 < length float_frame"
    by (simp add: float_frame_def)
  have h3: "cname (float_frame ! 0) \<in> fst ` set [(''v'', [])]"
    by (simp add: float_frame_def)
  have h5: "is_numeric_dtype (dtype (float_frame ! 0))"
    by (simp add: float_frame_def is_numeric_dtype_def)
  have h6: "list_ex isna (cvals (float_frame ! 0))"
    by (simp add: float_frame_def)
  have h4: "well_typed (float_frame ! 0)"
    by (simp add: float_frame_def well_typed_def)
  have h7: "float_mean sample_pandas (Fin 10) (Fin 20) = Some (Fin 15)"
    by (simp add: sample_pandas_def)
  have h8: "str_float sample_pandas (Fin 15) = ''15.0''"
    by code_simp
  note e = imputer_numeric_effect [OF h1 h2 h3 h5 h6 h4, of sample_pandas, unfolded Let_def]
  have h9: "(if list_all isna (cvals (float_frame ! 0)) then Some (Fin 0)
      else median sample_pandas (List.map_filter numeric_value
             (filter (\<lambda>x. \<not> isna x) (cvals (float_frame ! 0))))) \<noteq> None"
    by code_simp
  note full = e [THEN conjunct2, THEN conjunct1, THEN mp, OF h9]
  note ex = e [THEN conjunct2, THEN conjunct2, THEN conjunct2, THEN conjunct2,
      THEN mp, OF conjI [OF h7 h8]]
  show ?thesis
    using h1 h2 h3 h5 h6 h4 h7 h8 h9 full ex by (intro conjI)
qed

text \<open>The median of a column that holds the two infinities is NaN; the null stays, and
  the audit records one imputed value.\<close>

lemma imputer_nan_median:
  assumes "float_mean P MInf PInf = None"
  shows "for_columns (impute_col P)
           [\<lparr>cname = ''v'', dtype = Float64, cvals = [FloatV PInf, FloatV MInf, Null NaN]\<rparr>]
           [(''v'', [])] =
         ([\<lparr>cname = ''v'', dtype = Float64, cvals = [FloatV PInf, FloatV MInf, Null NaN]\<rparr>],
          [(''v'', [(''imputed_missing'', AInt 1), (''imputation_strategy'', AStr ''median=nan'')])])"
  using assms
  by (simp add: impute_col_def count_na_def is_numeric_dtype_def median_def
      List.map_filter_simps assign_where_def set_change_def Let_def)

subsection \<open>Pass 1: the text normaliser\<close>

text \<open>
  C3 asks that a value that is null before pass 1 is null after it. The pass converts the
  column with \<^verbatim>\<open>astype(str)\<close> first, which prints the null markers as well: below, the NaN
  of an object column comes out as the string \<^verbatim>\<open>nan\<close>. In the first frame one blank string
  becomes null and one null becomes text, the two null counts agree and nothing is
  recorded; in the second the recorded \<^verbatim>\<open>new_nulls_from_empty_strings\<close> is \<open>-1\<close>.
\<close>

theorem text_normalizer_stringifies_null:
  "for_columns (trim_col P)
     [\<lparr>cname = ''name'', dtype = Object, cvals = [Str '' Ann '', Str ''  '', Null NaN]\<rparr>]
     [(''name'', [])] =
   ([\<lparr>cname = ''name'', dtype = Object, cvals = [Str ''Ann'', Null NA, Str ''nan'']\<rparr>],
    [(''name'', [])])
   \<and>
   for_columns (trim_col P)
     [\<lparr>cname = ''name'', dtype = Object, cvals = [Str '' Ann '', Null NaN]\<rparr>]
     [(''name'', [])] =
   ([\<lparr>cname = ''name'', dtype = Object, cvals = [Str ''Ann'', Str ''nan'']\<rparr>],
    [(''name'', [(''new_nulls_from_empty_strings'', AInt (- 1))])])"
  by (simp add: trim_col_def count_na_def assign_where_def str_strip_def isspace_def
      set_change_def Let_def)

subsection \<open>Lower case and the email pattern\<close>

lemma lower_char_cases:
  "(c \<in> set upper_letters \<and> lower_char c \<in> set lower_letters) \<or>
   (c \<notin> set upper_letters \<and> lower_char c = c)"
proof (cases "map_of (zip upper_letters lower_letters) c")
  case None
  have "length upper_letters = length lower_letters"
    by (simp add: upper_letters_def lower_letters_def)
  with None have "c \<notin> set upper_letters"
    by (simp add: map_of_zip_is_None)
  with None show ?thesis by (simp add: lower_char_def)
next
  case (Some d)
  then have in_zip: "(c, d) \<in> set (zip upper_letters lower_letters)"
    by (rule map_of_SomeD)
  then have "c \<in> set upper_letters" "d \<in> set lower_letters"
    by (auto dest: set_zip_leftD set_zip_rightD)
  with Some show ?thesis by (simp add: lower_char_def)
qed

lemma lower_char_letter: "letter c \<Longrightarrow> letter (lower_char c)"
  using lower_char_cases [of c] by (auto simp: letter_def)

lemma lower_char_local: "local_char c \<Longrightarrow> local_char (lower_char c)"
  using lower_char_cases [of c] by (auto simp: local_char_def)

lemma lower_char_domain: "domain_char c \<Longrightarrow> domain_char (lower_char c)"
  using lower_char_cases [of c] by (auto simp: domain_char_def)

lemma lower_char_fixed:
  "lower_char (CHR ''@'') = CHR ''@''" "lower_char (CHR ''.'') = CHR ''.''"
  "lower_char (CHR 0x0A) = CHR 0x0A"
  by (simp_all add: lower_char_def upper_letters_def lower_letters_def)

lemma re_plus_map:
  assumes "\<And>c. p c \<Longrightarrow> p (f c)" and "\<And>t. k t \<Longrightarrow> k' (map f t)"
  shows "re_plus p k s \<Longrightarrow> re_plus p k' (map f s)"
  by (induction s) (auto simp: assms)

lemma re_lit_map:
  assumes "f a = a" and "\<And>t. k t \<Longrightarrow> k' (map f t)"
  shows "re_lit a k s \<Longrightarrow> re_lit a k' (map f s)"
  by (cases s) (auto simp: assms)

lemma re_end_lower: "re_end s \<Longrightarrow> re_end (map lower_char s)"
  by (auto simp: re_end_def lower_char_fixed)

lemma re_letters_end_lower: "re_letters_end s \<Longrightarrow> re_letters_end (map lower_char s)"
proof (induction s)
  case Nil
  then show ?case by simp
next
  case (Cons c s)
  from Cons.prems have "re_end (c # s) \<or> (letter c \<and> re_letters_end s)" by simp
  then show ?case
  proof
    assume "re_end (c # s)"
    then have "re_end (map lower_char (c # s))" by (rule re_end_lower)
    then show ?thesis by simp
  next
    assume "letter c \<and> re_letters_end s"
    with Cons.IH show ?thesis by (simp add: lower_char_letter)
  qed
qed

lemma re_tld_lower: "re_tld s \<Longrightarrow> re_tld (map lower_char s)"
proof (cases s)
  case Nil
  then show "re_tld s \<Longrightarrow> ?thesis" by simp
next
  case (Cons a t)
  then show "re_tld s \<Longrightarrow> ?thesis"
    by (cases t) (simp_all add: lower_char_letter re_letters_end_lower)
qed

lemma EMAIL_RE_lower: "EMAIL_RE s \<Longrightarrow> EMAIL_RE (str_lower s)"
proof -
  have dot: "re_lit (CHR ''.'') re_tld t \<Longrightarrow> re_lit (CHR ''.'') re_tld (map lower_char t)" for t
    by (rule re_lit_map [where k = re_tld]) (simp_all add: lower_char_fixed re_tld_lower)
  have dom: "re_plus domain_char (re_lit (CHR ''.'') re_tld) t \<Longrightarrow>
             re_plus domain_char (re_lit (CHR ''.'') re_tld) (map lower_char t)" for t
    by (rule re_plus_map [where k = "re_lit (CHR ''.'') re_tld"])
      (simp_all add: lower_char_domain dot)
  have at: "re_lit (CHR ''@'') (re_plus domain_char (re_lit (CHR ''.'') re_tld)) t \<Longrightarrow>
            re_lit (CHR ''@'') (re_plus domain_char (re_lit (CHR ''.'') re_tld)) (map lower_char t)"
    for t
    by (rule re_lit_map [where k = "re_plus domain_char (re_lit (CHR ''.'') re_tld)"])
      (simp_all add: lower_char_fixed dom)
  show "EMAIL_RE s \<Longrightarrow> EMAIL_RE (str_lower s)"
    unfolding EMAIL_RE_def str_lower_def
    by (rule re_plus_map
        [where k = "re_lit (CHR ''@'') (re_plus domain_char (re_lit (CHR ''.'') re_tld))"])
      (simp_all add: lower_char_local at)
qed

subsection \<open>The audit entry of a column\<close>

lemma nth_deduped_cname:
  "i < length df \<Longrightarrow> cname (deduped P df ! i) = cname (df ! i)"
  by (simp add: deduped_def normalized_def)

lemma length_deduped [simp]: "length (deduped P df) = length df"
  by (simp add: deduped_def normalized_def)

lemma cname_deduped [simp]: "map cname (deduped P df) = map cname df"
  by (simp add: deduped_def normalized_def comp_def)

lemma column_changes_nth:
  assumes "distinct (map cname df)" and "i < length df"
  shows "map_of (column_changes (snd (clean_dataframe P df))) (cname (df ! i)) =
           Some (impute_entry P (deduped P df ! i)
                  (email_entry P (parse_column P (trim_column P (df ! i)))
                    (parse_entry P (trim_column P (df ! i))
                      (trim_entry P (df ! i) []))))"
proof -
  let ?df1 = "map (trim_column P) df"
  let ?df2 = "map (parse_column P) ?df1"
  let ?df4 = "deduped P df"
  let ?k = "cname (df ! i)"
  have d1: "distinct (map cname ?df1)" and d2: "distinct (map cname ?df2)"
    and d4: "distinct (map cname ?df4)"
    using assms(1) by (simp_all add: comp_def)
  have i1: "i < length ?df1" and i2: "i < length ?df2" and i4: "i < length ?df4"
    using assms(2) by simp_all
  have n1: "cname (?df1 ! i) = ?k" and n2: "cname (?df2 ! i) = ?k" and n4: "cname (?df4 ! i) = ?k"
    using assms(2) by (simp_all add: nth_deduped_cname)
  have c1: "?df1 ! i = trim_column P (df ! i)"
    and c2: "?df2 ! i = parse_column P (trim_column P (df ! i))"
    using assms(2) by simp_all
  have init: "map_of (map (\<lambda>c. (cname c, [])) df) ?k = Some []"
    using assms(2) by (simp add: map_of_initial)
  let ?ch0 = "map (\<lambda>c. (cname c, [])) df"
  let ?ch1 = "fold (\<lambda>c. AList.map_entry (cname c) (trim_entry P c)) df ?ch0"
  let ?ch2 = "fold (\<lambda>c. AList.map_entry (cname c) (parse_entry P c)) ?df1 ?ch1"
  let ?ch3 = "fold (\<lambda>c. AList.map_entry (cname c) (email_entry P c)) ?df2 ?ch2"
  let ?ch5 = "fold (\<lambda>c. AList.map_entry (cname c) (impute_entry P c)) ?df4 ?ch3"
  have e1: "map_of ?ch1 ?k = Some (trim_entry P (df ! i) [])"
    using map_of_fold_nth [OF assms, of "trim_entry P" ?ch0] by (simp only: init option.map)
  have e2: "map_of ?ch2 ?k = Some (parse_entry P (trim_column P (df ! i)) (trim_entry P (df ! i) []))"
    using map_of_fold_nth [OF d1 i1, of "parse_entry P" ?ch1] e1 by (simp only: c1 cname_trim_column option.map)
  have e3: "map_of ?ch3 ?k =
      Some (email_entry P (parse_column P (trim_column P (df ! i)))
             (parse_entry P (trim_column P (df ! i)) (trim_entry P (df ! i) [])))"
    using map_of_fold_nth [OF d2 i2, of "email_entry P" ?ch2] e2 by (simp only: c2 cname_trim_column cname_parse_column option.map)
  have e5: "map_of ?ch5 ?k =
      Some (impute_entry P (deduped P df ! i)
             (email_entry P (parse_column P (trim_column P (df ! i)))
               (parse_entry P (trim_column P (df ! i)) (trim_entry P (df ! i) []))))"
    using map_of_fold_nth [OF d4 i4, of "impute_entry P" ?ch3] e3 by (simp only: n4 option.map)
  show ?thesis
    unfolding clean_dataframe_eq snd_conv audit.simps by (rule e5)
qed

lemma keys_fold_entry:
  "fst ` set (fold (\<lambda>c. AList.map_entry (cname c) (entf c)) df ch) = fst ` set ch"
  by (induction df arbitrary: ch) (simp_all add: dom_map_entry)

lemma column_changes_keys:
  "fst ` set (column_changes (snd (clean_dataframe P df))) = cname ` set df"
  by (simp add: clean_dataframe_eq keys_fold_entry image_image)

subsection \<open>Pass 3: the two counts of valid emails\<close>

lemma trim_values_cells:
  "x \<in> set (trim_values P vs) \<Longrightarrow> (\<exists>s. x = Str s) \<or> x = Null NA"
  by (auto simp: trim_values_def assign_where_def)

lemma dtype_trim_column [simp]: "dtype (trim_column P c) = dtype c"
  by (simp add: trim_column_def)

lemma dtype_email_column [simp]: "dtype (email_column c) = dtype c"
  by (simp add: email_column_def)

lemma parse_column_Object:
  "dtype (parse_column P c) = Object \<Longrightarrow> parse_column P c = c"
  by (simp add: parse_column_def split: if_splits)

lemma object_after_parse_cells:
  assumes "dtype (parse_column P (trim_column P c)) = Object"
    and "x \<in> set (cvals (parse_column P (trim_column P c)))"
  shows "(\<exists>s. x = Str s) \<or> x = Null NA"
proof -
  have eq: "parse_column P (trim_column P c) = trim_column P c"
    using assms(1) by (rule parse_column_Object)
  with assms(1) have "dtype c = Object" by simp
  with assms(2) eq have "x \<in> set (trim_values P (cvals c))"
    by (simp add: trim_column_def)
  then show ?thesis by (rule trim_values_cells)
qed

lemma length_filter_map_le:
  assumes "\<And>x. x \<in> set xs \<Longrightarrow> p x \<Longrightarrow> q (f x)"
  shows "length (filter p xs) \<le> length (filter q (map f xs))"
  using assms by (induction xs) auto

lemma valid_email_lower:
  assumes "(\<exists>s. x = Str s) \<or> x = Null NA" and "valid_email P x"
  shows "valid_email P (str_method str_lower x)"
  using assms by (auto simp: valid_email_def EMAIL_RE_lower)

lemma valid_count_lower:
  assumes "\<And>x. x \<in> set vs \<Longrightarrow> (\<exists>s. x = Str s) \<or> x = Null NA"
  shows "valid_count P vs \<le> valid_count P (map (str_method str_lower) vs)"
proof -
  have "length (filter (valid_email P) vs) \<le>
        length (filter (valid_email P) (map (str_method str_lower) vs))"
  proof (rule length_filter_map_le)
    fix x assume "x \<in> set vs" and "valid_email P x"
    then show "valid_email P (str_method str_lower x)"
      using assms valid_email_lower by blast
  qed
  then show ?thesis by (simp only: valid_count_def zle_int)
qed

lemma map_of_trim_entry:
  "k \<noteq> ''new_nulls_from_empty_strings'' \<Longrightarrow> map_of (trim_entry P c d) k = map_of d k"
  by (simp add: trim_entry_def update_conv')

lemma map_of_parse_entry:
  "k \<noteq> ''parsed_to_datetime'' \<Longrightarrow> map_of (parse_entry P c d) k = map_of d k"
  by (simp add: parse_entry_def update_conv')

lemma map_of_impute_entry:
  "k \<noteq> ''imputed_missing'' \<Longrightarrow> k \<noteq> ''imputation_strategy'' \<Longrightarrow>
     map_of (impute_entry P c d) k = map_of d k"
  by (simp add: impute_entry_def update_conv')

lemma map_of_email_entry:
  "k \<noteq> ''emails_valid_before'' \<Longrightarrow> k \<noteq> ''emails_valid_after'' \<Longrightarrow>
     map_of (email_entry P c d) k = map_of d k"
  by (simp add: email_entry_def update_conv')

lemma email_entry_not_applies: "\<not> email_applies c \<Longrightarrow> email_entry P c d = d"
  by (simp add: email_entry_def)

lemma get_change_column:
  assumes "get_change ch col key = Some v"
  shows "col \<in> fst ` set ch"
proof -
  from assms have "map_of ch col \<noteq> None"
    by (auto simp: get_change_def split: option.splits)
  then show ?thesis
    by (simp add: map_of_eq_None_iff)
qed


text \<open>
  C10. Whenever the audit of \<^verbatim>\<open>clean_dataframe\<close> holds both \<^verbatim>\<open>emails_valid_before\<close> and
  \<^verbatim>\<open>emails_valid_after\<close> for a column, the second is at least the first: the column held
  only strings and nulls when pass 3 counted, and the lower case of a string that matches
  the pattern matches it too.
\<close>

theorem emails_valid_after_ge_before:
  assumes "well_formed df"
    and "get_change (column_changes (snd (clean_dataframe P df))) col ''emails_valid_before'' =
           Some (AInt b)"
    and "get_change (column_changes (snd (clean_dataframe P df))) col ''emails_valid_after'' =
           Some (AInt a)"
  shows "b \<le> a \<and> (\<forall>s. EMAIL_RE s \<longrightarrow> EMAIL_RE (str_lower s))"
proof -
  let ?ch = "column_changes (snd (clean_dataframe P df))"
  have dist: "distinct (map cname df)"
    using assms(1) by (simp add: well_formed_def)
  from assms(2) have "col \<in> cname ` set df"
    using get_change_column column_changes_keys by blast
  then obtain i where i: "i < length df" and col: "col = cname (df ! i)"
    by (auto simp: in_set_conv_nth)
  let ?c2 = "parse_column P (trim_column P (df ! i))"
  let ?d = "parse_entry P (trim_column P (df ! i)) (trim_entry P (df ! i) [])"
  have ent: "map_of ?ch col = Some (impute_entry P (deduped P df ! i) (email_entry P ?c2 ?d))"
    unfolding col by (rule column_changes_nth [OF dist i])
  have before: "map_of (email_entry P ?c2 ?d) ''emails_valid_before'' = Some (AInt b)"
    using assms(2) by (simp add: get_change_def ent map_of_impute_entry)
  have after: "map_of (email_entry P ?c2 ?d) ''emails_valid_after'' = Some (AInt a)"
    using assms(3) by (simp add: get_change_def ent map_of_impute_entry)
  have app: "email_applies ?c2"
  proof (rule ccontr)
    assume "\<not> email_applies ?c2"
    then have "map_of (email_entry P ?c2 ?d) ''emails_valid_before'' = None"
      by (simp add: email_entry_not_applies map_of_parse_entry map_of_trim_entry)
    with before show False by simp
  qed
  then have obj: "dtype ?c2 = Object"
    by (simp add: email_applies_def)
  have b: "b = valid_count P (cvals ?c2)"
    using before email_entry_before [OF app, of P ?d] by (simp add: valid_count_def)
  have a: "a = valid_count P (map (str_method str_lower) (cvals ?c2))"
    using after email_entry_after [OF app, of P ?d] by (simp add: valid_count_def)
  have "valid_count P (cvals ?c2) \<le> valid_count P (map (str_method str_lower) (cvals ?c2))"
    by (rule valid_count_lower) (rule object_after_parse_cells [OF obj])
  with a b show ?thesis
    by (simp add: EMAIL_RE_lower)
qed

theorem emails_valid_after_ge_before_witness:
  "well_formed john_frame \<and>
   get_change (column_changes (snd (clean_dataframe sample_pandas john_frame)))
     ''email'' ''emails_valid_before'' = Some (AInt 2) \<and>
   get_change (column_changes (snd (clean_dataframe sample_pandas john_frame)))
     ''email'' ''emails_valid_after'' = Some (AInt 2) \<and>
   (2::int) \<le> 2 \<and> EMAIL_RE ''A@X.COM'' \<and> EMAIL_RE (str_lower ''A@X.COM'')"
proof -
  have h1: "well_formed john_frame"
    by code_simp
  have h2: "get_change (column_changes (snd (clean_dataframe sample_pandas john_frame)))
     ''email'' ''emails_valid_before'' = Some (AInt 2)"
    by code_simp
  have h3: "get_change (column_changes (snd (clean_dataframe sample_pandas john_frame)))
     ''email'' ''emails_valid_after'' = Some (AInt 2)"
    by code_simp
  have h4: "EMAIL_RE ''A@X.COM''"
    by code_simp
  note e = emails_valid_after_ge_before [OF h1 h2 h3]
  from e h4 have "EMAIL_RE (str_lower ''A@X.COM'')"
    by blast
  with e h1 h2 h3 h4 show ?thesis
    by (intro conjI) blast+
qed

subsection \<open>A frame without rows\<close>

lemma well_formed_cvals:
  "well_formed df \<Longrightarrow> i < length df \<Longrightarrow> length (cvals (df ! i)) = len df"
  by (simp add: well_formed_def list_all_length)

lemma trim_column_empty: "cvals c = [] \<Longrightarrow> trim_column P c = c"
  by (simp add: trim_column_def trim_values_def assign_where_def)

lemma trim_entry_empty: "cvals c = [] \<Longrightarrow> trim_entry P c d = d"
  by (simp add: trim_entry_def trim_delta_def trim_values_def assign_where_def)

lemma parses_empty: "cvals c = [] \<Longrightarrow> \<not> parses P c"
  by (simp add: parses_def converted_count_def parsed_values_def)

lemma email_entry_empty:
  "cvals c = [] \<Longrightarrow> email_entry P c [] =
     (if dtype c = Object \<and> email_name (cname c)
      then [(''emails_valid_before'', AInt 0), (''emails_valid_after'', AInt 0)] else [])"
  by (simp add: email_entry_def email_applies_def valid_count_def)

lemma impute_entry_empty: "cvals c = [] \<Longrightarrow> impute_entry P c d = d"
  by (simp add: impute_entry_def count_na_def)

lemma select_rows_Nil [simp]: "select_rows keep [] = []"
  by (simp add: select_rows_def)

lemma cvals_deduped_empty:
  assumes "i < length df" and "cvals (df ! i) = []"
  shows "cvals (deduped P df ! i) = []"
proof -
  have "cvals (normalized P df ! i) = []"
    using assms by (simp add: normalized_def trim_column_empty parse_column_False parses_empty
        email_column_def)
  with assms(1) show ?thesis
    by (simp add: deduped_def normalized_def)
qed

lemma map_fst_map_entry: "map fst (AList.map_entry k f xs) = map fst xs"
  by (induction xs) auto

lemma map_fst_fold_entry:
  "map fst (fold (\<lambda>c. AList.map_entry (cname c) (entf c)) df ch) = map fst ch"
  by (induction df arbitrary: ch) (simp_all add: map_fst_map_entry)

lemma column_changes_key_list:
  "map fst (column_changes (snd (clean_dataframe P df))) = map cname df"
  by (simp add: clean_dataframe_eq map_fst_fold_entry comp_def)


text \<open>
  C4 as stated fails: on a frame without rows, pass 3 still writes its two counts for an
  object column whose name contains \<^verbatim>\<open>email\<close>, since it writes them for every such column.
\<close>

theorem zero_rows_counterexample:
  "well_formed empty_email_frame \<and> len empty_email_frame = 0 \<and>
   column_changes (snd (clean_dataframe sample_pandas empty_email_frame)) =
     [(''email'', [(''emails_valid_before'', AInt 0), (''emails_valid_after'', AInt 0)])]"
  by code_simp


text \<open>
  C4, amended. For a frame without rows the audit has \<open>rows_before = 0\<close>,
  \<open>rows_after = 0\<close> and \<open>duplicates_removed = 0\<close>; \<^verbatim>\<open>column_changes\<close> has one entry for each
  column, which is empty, except for an object column whose name contains \<^verbatim>\<open>email\<close>: its
  entry is \<^verbatim>\<open>emails_valid_before\<close> = 0 and \<^verbatim>\<open>emails_valid_after\<close> = 0 and nothing else.
\<close>

theorem zero_rows_audit:
  assumes "well_formed df" and "len df = 0"
  shows "rows_before (snd (clean_dataframe P df)) = 0 \<and>
         rows_after (snd (clean_dataframe P df)) = Some 0 \<and>
         duplicates_removed (snd (clean_dataframe P df)) = 0 \<and>
         map fst (column_changes (snd (clean_dataframe P df))) = map cname df \<and>
         (\<forall>i<length df.
            map_of (column_changes (snd (clean_dataframe P df))) (cname (df ! i)) =
              Some (if dtype (df ! i) = Object \<and> email_name (cname (df ! i))
                    then [(''emails_valid_before'', AInt 0), (''emails_valid_after'', AInt 0)]
                    else []))"
proof -
  have dist: "distinct (map cname df)"
    using assms(1) by (simp add: well_formed_def)
  have empty: "cvals (df ! i) = []" if "i < length df" for i
    using well_formed_cvals [OF assms(1) that] assms(2) by simp
  have "len (deduped P df) \<le> len df"
    using len_deduped_le [of P df] by (simp add: len_normalized)
  with assms(2) have len0: "len (deduped P df) = 0" by simp
  have counts: "rows_before (snd (clean_dataframe P df)) = 0"
    "rows_after (snd (clean_dataframe P df)) = Some 0"
    "duplicates_removed (snd (clean_dataframe P df)) = 0"
    by (simp_all add: clean_dataframe_eq assms(2) len0)
  have entry: "map_of (column_changes (snd (clean_dataframe P df))) (cname (df ! i)) =
              Some (if dtype (df ! i) = Object \<and> email_name (cname (df ! i))
                    then [(''emails_valid_before'', AInt 0), (''emails_valid_after'', AInt 0)]
                    else [])" if i: "i < length df" for i
  proof -
    note e = empty [OF i]
    have np: "\<not> parses P (df ! i)" using e by (rule parses_empty)
    show ?thesis
      by (simp only: column_changes_nth [OF dist i] trim_column_empty [OF e]
          trim_entry_empty [OF e] parse_column_False [OF np] parse_entry_False [OF np]
          email_entry_empty [OF e] impute_entry_empty [OF cvals_deduped_empty [OF i e]])
  qed
  show ?thesis
    using counts entry column_changes_key_list by (intro conjI allI impI)
qed

theorem zero_rows_audit_witness:
  "well_formed zero_rows_frame \<and> len zero_rows_frame = 0 \<and>
   rows_before (snd (clean_dataframe sample_pandas zero_rows_frame)) = 0 \<and>
   rows_after (snd (clean_dataframe sample_pandas zero_rows_frame)) = Some 0 \<and>
   duplicates_removed (snd (clean_dataframe sample_pandas zero_rows_frame)) = 0 \<and>
   map_of (column_changes (snd (clean_dataframe sample_pandas zero_rows_frame))) ''Email'' =
     Some [(''emails_valid_before'', AInt 0), (''emails_valid_after'', AInt 0)] \<and>
   map_of (column_changes (snd (clean_dataframe sample_pandas zero_rows_frame))) ''amount'' =
     Some []"
proof -
  have h1: "well_formed zero_rows_frame"
    by code_simp
  have h2: "len zero_rows_frame = 0"
    by code_simp
  note z = zero_rows_audit [OF h1 h2, of sample_pandas]
  have i0: "0 < length zero_rows_frame" and i1: "1 < length zero_rows_frame"
    by (simp_all add: zero_rows_frame_def)
  have c0: "cname (zero_rows_frame ! 0) = ''Email''" "dtype (zero_rows_frame ! 0) = Object"
    and c1: "cname (zero_rows_frame ! 1) = ''amount''" "dtype (zero_rows_frame ! 1) = Float64"
    by (simp_all add: zero_rows_frame_def)
  have em: "email_name ''Email''"
    by code_simp
  from z i0 have "map_of (column_changes (snd (clean_dataframe sample_pandas zero_rows_frame)))
      (cname (zero_rows_frame ! 0)) =
    Some (if dtype (zero_rows_frame ! 0) = Object \<and> email_name (cname (zero_rows_frame ! 0))
          then [(''emails_valid_before'', AInt 0), (''emails_valid_after'', AInt 0)] else [])"
    by blast
  then have e0: "map_of (column_changes (snd (clean_dataframe sample_pandas zero_rows_frame)))
      ''Email'' = Some [(''emails_valid_before'', AInt 0), (''emails_valid_after'', AInt 0)]"
    by (simp add: c0 em)
  from z i1 have "map_of (column_changes (snd (clean_dataframe sample_pandas zero_rows_frame)))
      (cname (zero_rows_frame ! 1)) =
    Some (if dtype (zero_rows_frame ! 1) = Object \<and> email_name (cname (zero_rows_frame ! 1))
          then [(''emails_valid_before'', AInt 0), (''emails_valid_after'', AInt 0)] else [])"
    by blast
  then have e1: "map_of (column_changes (snd (clean_dataframe sample_pandas zero_rows_frame)))
      ''amount'' = Some []"
    by (simp add: zero_rows_frame_def)
  from z h1 h2 e0 e1 show ?thesis
    by (intro conjI) blast+
qed

subsection \<open>Pass 4: the deduplicator\<close>

lemma length_duplicated_from [simp]: "length (duplicated_from seen ks) = length ks"
  by (induction ks arbitrary: seen) simp_all

lemma nth_duplicated_from:
  "i < length ks \<Longrightarrow> duplicated_from seen ks ! i \<longleftrightarrow> ks ! i \<in> set seen \<union> set (take i ks)"
proof (induction ks arbitrary: seen i)
  case Nil
  then show ?case by simp
next
  case (Cons k ks)
  show ?case
  proof (cases i)
    case 0
    then show ?thesis by simp
  next
    case (Suc n)
    with Cons.prems have "n < length ks" by simp
    from Cons.IH [OF this, of "seen @ [k]"] Suc show ?thesis by auto
  qed
qed

lemma in_set_take_iff: "x \<in> set (take i ks) \<longleftrightarrow> (\<exists>j<i. j < length ks \<and> ks ! j = x)"
  by (auto simp: in_set_conv_nth)

lemma select_rows_Cons:
  "select_rows (k # keep) (v # vs) = (if k then [v] else []) @ select_rows keep vs"
  by (simp add: select_rows_def)

lemma select_rows_nths: "select_rows keep vs = nths vs {i. i < length keep \<and> keep ! i}"
proof (induction vs arbitrary: keep)
  case Nil
  then show ?case by (simp add: select_rows_def)
next
  case (Cons v vs)
  show ?case
  proof (cases keep)
    case Nil
    then show ?thesis by (simp add: select_rows_def)
  next
    case (Cons k ks)
    have "{j. Suc j \<in> {i. i < length (k # ks) \<and> (k # ks) ! i}} = {i. i < length ks \<and> ks ! i}"
      by auto
    then show ?thesis
      using Cons.IH [of ks] Cons by (simp add: select_rows_Cons nths_Cons)
  qed
qed

lemma len_map_norm_col [simp]: "len (map norm_col df) = len df"
  by (rule len_map) (simp add: norm_col_def)

lemma length_row_keys [simp]: "length (row_keys df) = len df"
  by (simp add: row_keys_def)

lemma str_method_comp_key:
  "dup_key (str_method str_strip (str_method str_lower x)) =
     (case x of Str s \<Rightarrow> Some (Str (str_strip (str_lower s))) | _ \<Rightarrow> None)"
  by (cases x) (simp_all add: dup_key_def)

lemma dup_key_norm_col:
  "i < length (cvals c) \<Longrightarrow> dup_key (cvals (norm_col c) ! i) = comparison_key c (cvals c ! i)"
  by (simp add: norm_col_def comparison_key_def str_method_comp_key) (simp add: dup_key_def)

lemma row_keys_norm:
  assumes "well_formed df" and "i < len df"
  shows "row_keys (map norm_col df) ! i = row_key df i"
proof -
  have "dup_key (cvals (norm_col c) ! i) = comparison_key c (cvals c ! i)" if "c \<in> set df" for c
  proof -
    from that assms(1) have "length (cvals c) = len df"
      by (simp add: well_formed_def list_all_iff)
    with assms(2) show ?thesis by (simp add: dup_key_norm_col)
  qed
  then show ?thesis
    using assms(2) by (simp add: row_keys_def row_key_def)
qed

lemma keep_rows_set:
  assumes "well_formed df"
  shows "{i. i < length (keep_rows df) \<and> keep_rows df ! i} = first_occurrences df"
proof -
  let ?ks = "row_keys (map norm_col df)"
  have len: "length ?ks = len df" by simp
  have "keep_rows df ! i \<longleftrightarrow> (\<forall>j<i. row_key df j \<noteq> row_key df i)" if i: "i < len df" for i
  proof -
    have "keep_rows df ! i \<longleftrightarrow> ?ks ! i \<notin> set (take i ?ks)"
      using i by (simp add: keep_rows_def duplicated_def nth_duplicated_from)
    also have "\<dots> \<longleftrightarrow> (\<forall>j<i. ?ks ! j \<noteq> ?ks ! i)"
      using i by (auto simp: in_set_take_iff)
    also have "\<dots> \<longleftrightarrow> (\<forall>j<i. row_key df j \<noteq> row_key df i)"
      using i by (simp add: row_keys_norm [OF assms])
    finally show ?thesis .
  qed
  moreover have "length (keep_rows df) = len df"
    by (simp add: keep_rows_def duplicated_def)
  ultimately show ?thesis
    by (auto simp: first_occurrences_def)
qed


lemma first_occurrences_unique:
  assumes "i \<in> first_occurrences df" and "j \<in> first_occurrences df"
    and "row_key df i = row_key df j"
  shows "i = j"
proof (rule ccontr)
  assume "i \<noteq> j"
  then consider "i < j" | "j < i" by linarith
  then show False
    using assms by cases (auto simp: first_occurrences_def)
qed

lemma first_occurrences_cover:
  assumes "i < len df"
  shows "\<exists>j\<in>first_occurrences df. j \<le> i \<and> row_key df j = row_key df i"
proof -
  define j where "j = (LEAST j. row_key df j = row_key df i)"
  have eq: "row_key df j = row_key df i"
    unfolding j_def by (rule LeastI [of _ i]) simp
  have le: "j \<le> i"
    unfolding j_def by (rule Least_le) simp
  have "row_key df k \<noteq> row_key df j" if "k < j" for k
  proof
    assume "row_key df k = row_key df j"
    with eq have "row_key df k = row_key df i" by simp
    then have "j \<le> k" unfolding j_def by (rule Least_le)
    with that show False by simp
  qed
  with le assms have "j \<in> first_occurrences df"
    by (simp add: first_occurrences_def)
  with eq le show ?thesis by blast
qed


text \<open>
  C6. Pass 4 returns, in every column, the values of the rows that no earlier row equals
  in every comparison key, in the order of the input (\<open>nths\<close> takes the elements at the
  given positions, in order): the key of a value is its lower-cased, trimmed string in an
  object column and the value itself elsewhere, with one key for all nulls. Every row has
  the keys of a kept row that is not after it, and no two kept rows have the same keys.
\<close>

theorem deduplicator_keeps_first_occurrences:
  assumes "well_formed df"
  shows "fst (drop_duplicates df) =
           map (\<lambda>c. c\<lparr>cvals := nths (cvals c) (first_occurrences df)\<rparr>) df \<and>
         (\<forall>i<len df. \<exists>j\<in>first_occurrences df. j \<le> i \<and> row_key df j = row_key df i) \<and>
         (\<forall>i\<in>first_occurrences df. \<forall>j\<in>first_occurrences df.
            row_key df i = row_key df j \<longrightarrow> i = j)"
proof -
  have "fst (drop_duplicates df) =
          map (\<lambda>c. c\<lparr>cvals := nths (cvals c) (first_occurrences df)\<rparr>) df"
    by (simp add: drop_duplicates_eq select_rows_nths keep_rows_set [OF assms])
  then show ?thesis
    using first_occurrences_cover first_occurrences_unique by blast
qed

theorem deduplicator_keeps_first_occurrences_witness:
  "well_formed john_frame \<and>
   fst (drop_duplicates john_frame) =
     [\<lparr>cname = ''name'', dtype = Object, cvals = [Str ''John'']\<rparr>,
      \<lparr>cname = ''email'', dtype = Object, cvals = [Str ''A@X.COM'']\<rparr>]"
proof -
  have h: "well_formed john_frame"
    by code_simp
  have k: "row_key john_frame (Suc 0) = row_key john_frame 0"
    by code_simp
  have n: "len john_frame = 2"
    by code_simp
  have fo: "first_occurrences john_frame = {0}"
    unfolding first_occurrences_def n using k by (auto simp: less_Suc_eq numeral_2_eq_2)
  from deduplicator_keeps_first_occurrences [OF h]
  have "fst (drop_duplicates john_frame) =
          map (\<lambda>c. c\<lparr>cvals := nths (cvals c) (first_occurrences john_frame)\<rparr>) john_frame"
    by (rule conjunct1)
  then have "fst (drop_duplicates john_frame) =
          map (\<lambda>c. c\<lparr>cvals := nths (cvals c) {0}\<rparr>) john_frame"
    by (simp only: fo)
  also have "\<dots> =
     [\<lparr>cname = ''name'', dtype = Object, cvals = [Str ''John'']\<rparr>,
      \<lparr>cname = ''email'', dtype = Object, cvals = [Str ''A@X.COM'']\<rparr>]"
    by (simp add: john_frame_def nths_Cons)
  finally show ?thesis
    using h by simp
qed

subsection \<open>Nulls in the cleaned frame\<close>

lemma fold_max_attained:
  assumes "xs \<noteq> []"
  shows "\<exists>v\<in>set xs. count_list xs v = fold max (map (count_list xs) xs) 0"
proof -
  let ?m = "fold max (map (count_list xs) xs) 0"
  have m: "?m = Max (set (0 # map (count_list xs) xs))"
    by (simp only: Max.set_eq_fold)
  then have "?m \<in> set (0 # map (count_list xs) xs)"
    using Max_in [of "set (0 # map (count_list xs) xs)"] by simp
  moreover have "?m \<noteq> 0"
  proof -
    from assms obtain v where v: "v \<in> set xs" by (cases xs) auto
    then have "count_list xs v \<noteq> 0" by (simp add: count_list_0_iff)
    moreover have "count_list xs v \<le> ?m"
      unfolding m using v by (intro Max_ge) auto
    ultimately show ?thesis by simp
  qed
  ultimately show ?thesis by auto
qed

lemma mode_Nil: "mode xs = [] \<longleftrightarrow> xs = []"
proof (cases "xs = []")
  case True
  then show ?thesis by (simp add: mode_def)
next
  case False
  from fold_max_attained [OF False] obtain v where
    "v \<in> set xs" "count_list xs v = fold max (map (count_list xs) xs) 0" by blast
  then have "filter (\<lambda>v. count_list xs v = fold max (map (count_list xs) xs) 0) xs \<noteq> []"
    by (auto simp: filter_empty_conv)
  then have "mode xs \<noteq> []"
    unfolding mode_def Let_def
    by (metis length_0_conv length_sort remdups_eq_nil_iff)
  with False show ?thesis by simp
qed

lemma timestamp_value_typed:
  "has_dtype Datetime64 x \<Longrightarrow> timestamp_value x = None \<Longrightarrow> isna x"
  by (cases x) simp_all

lemma assign_where_all_null:
  "isna v \<Longrightarrow> list_all isna vs \<Longrightarrow> list_all isna (assign_where isna v vs)"
  by (induction vs) (simp_all add: assign_where_def)

lemma count_na_zero: "count_na vs = 0 \<Longrightarrow> list_all (\<lambda>x. \<not> isna x) vs"
  by (simp add: count_na_def list_all_iff filter_empty_conv)

lemma dtype_impute_column [simp]: "dtype (impute_column P c) = dtype c"
  by (simp add: impute_column_def)

lemma map_filter_assign_null:
  "isna v \<Longrightarrow>
   List.map_filter numeric_value (assign_where isna v vs) = List.map_filter numeric_value vs"
proof (induction vs)
  case Nil
  then show ?case by (simp add: assign_where_def)
next
  case (Cons x xs)
  then have "List.map_filter numeric_value (assign_where isna v xs) =
             List.map_filter numeric_value xs"
    by simp
  with Cons.prems show ?case
    by (cases "isna x")
      (simp_all add: assign_where_def List.map_filter_simps numeric_value_null
        split: option.splits)
qed

lemma list_ex_assign_null:
  "isna v \<Longrightarrow>
   list_ex (\<lambda>x. \<not> isna x) (assign_where isna v vs) = list_ex (\<lambda>x. \<not> isna x) vs"
  by (induction vs) (simp_all add: assign_where_def)

lemma impute_column_post:
  assumes "well_typed c"
  shows "list_all (\<lambda>x. \<not> isna x) (cvals (impute_column P c)) \<or>
         (dtype c = Datetime64 \<and> list_all isna (cvals c) \<and>
          list_all isna (cvals (impute_column P c))) \<or>
         (is_numeric_dtype (dtype c) \<and>
          list_ex (\<lambda>x. \<not> isna x) (cvals (impute_column P c)) \<and>
          median P (List.map_filter numeric_value (cvals (impute_column P c))) = None)"
proof (cases "count_na (cvals c) = 0")
  case True
  then show ?thesis by (simp add: impute_column_def count_na_zero)
next
  case False
  then have col: "cvals (impute_column P c) = assign_where isna (impute_fill P c) (cvals c)"
    by (simp add: impute_column_def)
  show ?thesis
  proof (cases "isna (impute_fill P c)")
    case False
    then show ?thesis by (simp add: col assign_where_no_null)
  next
    case null: True
    show ?thesis
    proof (cases "is_numeric_dtype (dtype c)")
      case True
      with null have "impute_median P c = None"
        by (simp add: impute_fill_def float_cell_isna)
      then have ex: "list_ex (\<lambda>x. \<not> isna x) (cvals c)"
        and med: "median P (List.map_filter numeric_value (cvals c)) = None"
        by (simp_all add: impute_median_def split: if_splits)
      from ex have "list_ex (\<lambda>x. \<not> isna x) (cvals (impute_column P c))"
        by (simp only: col list_ex_assign_null [OF null])
      moreover from med
      have "median P (List.map_filter numeric_value (cvals (impute_column P c))) = None"
        by (simp only: col map_filter_assign_null [OF null])
      ultimately show ?thesis using True by blast
    next
      case False
      with null have dt: "dtype c = Datetime64"
        and empty: "mode (List.map_filter timestamp_value (cvals c)) = []"
        by (auto simp: impute_fill_def is_datetime64_any_dtype_def
            split: if_splits list.splits)
      from empty have "List.map_filter timestamp_value (cvals c) = []"
        by (simp add: mode_Nil)
      then have "\<forall>x\<in>set (cvals c). timestamp_value x = None"
        by (simp add: map_filter_Nil)
      moreover from assms dt have "\<forall>x\<in>set (cvals c). has_dtype Datetime64 x"
        by (simp add: well_typed_def list_all_iff)
      ultimately have all: "list_all isna (cvals c)"
        using timestamp_value_typed by (auto simp: list_all_iff)
      with null dt show ?thesis
        by (simp add: col assign_where_all_null)
    qed
  qed
qed


lemma well_typed_trim_column: "well_typed c \<Longrightarrow> well_typed (trim_column P c)"
  by (simp add: trim_column_def well_typed_def list_all_iff)

lemma has_dtype_parsed: "has_dtype Datetime64 (cell_of_parsed y)"
  by (cases y) simp_all

lemma well_typed_parse_column:
  assumes "well_typed c"
  shows "well_typed (parse_column P c)"
proof (cases "parses P c")
  case True
  have "list_all (has_dtype Datetime64) (parsed_values P (cvals c))"
    unfolding parsed_values_def list_all_iff using has_dtype_parsed by auto
  with True show ?thesis
    by (simp add: parse_column_def well_typed_def del: has_dtype.simps)
next
  case False
  with assms show ?thesis by (simp add: parse_column_False)
qed

lemma well_typed_email_column: "well_typed c \<Longrightarrow> well_typed (email_column c)"
  by (simp add: email_column_def well_typed_def email_applies_def list_all_iff)

lemma set_select_rows: "set (select_rows keep vs) \<subseteq> set vs"
  by (simp add: select_rows_nths set_nths_subset)

lemma well_typed_select_rows: "well_typed c \<Longrightarrow> well_typed (c\<lparr>cvals := select_rows keep (cvals c)\<rparr>)"
  using set_select_rows [of keep "cvals c"] by (auto simp: well_typed_def list_all_iff)

lemma well_formed_normalized:
  assumes "well_formed df"
  shows "well_formed (normalized P df)"
proof -
  have "distinct (map cname (normalized P df))"
    using assms by (simp add: well_formed_def normalized_def comp_def)
  moreover have "list_all (\<lambda>c. length (cvals c) = len (normalized P df)) (normalized P df)"
    using assms by (simp add: well_formed_def len_normalized) (simp add: normalized_def list_all_iff)
  moreover have "list_all well_typed (normalized P df)"
    using assms
    by (simp add: well_formed_def normalized_def list_all_iff well_typed_trim_column
        well_typed_parse_column well_typed_email_column)
  ultimately show ?thesis by (simp add: well_formed_def)
qed

lemma nth_deduped:
  "i < length df \<Longrightarrow> deduped P df ! i =
     (normalized P df ! i)\<lparr>cvals := select_rows (keep_rows (normalized P df))
                                      (cvals (normalized P df ! i))\<rparr>"
  by (simp add: deduped_def normalized_def)

lemma well_typed_deduped:
  assumes "well_formed df" and "i < length df"
  shows "well_typed (deduped P df ! i)"
proof -
  have "i < length (normalized P df)" using assms(2) by (simp add: normalized_def)
  with well_formed_normalized [OF assms(1), of P] have "well_typed (normalized P df ! i)"
    by (simp add: well_formed_def list_all_length)
  then show ?thesis
    by (simp only: nth_deduped [OF assms(2)] well_typed_select_rows)
qed

text \<open>A column that pass 4 returns entirely null was entirely null before the pass, when
  it is not an object column: a dropped row has the keys of a kept one.\<close>

lemma all_null_before_dedup:
  assumes wf: "well_formed df" and i: "i < length df" and dt: "dtype (df ! i) \<noteq> Object"
    and null: "list_all isna (nths (cvals (df ! i)) (first_occurrences df))"
  shows "list_all isna (cvals (df ! i))"
proof -
  have len: "length (cvals (df ! i)) = len df"
    by (rule well_formed_cvals [OF wf i])
  have key: "row_key df r ! i = (if isna (cvals (df ! i) ! r) then None else Some (cvals (df ! i) ! r))"
    for r using i dt by (simp add: row_key_def comparison_key_def)
  have "isna (cvals (df ! i) ! r)" if r: "r < len df" for r
  proof -
    from first_occurrences_cover [OF r] obtain j where
      j: "j \<in> first_occurrences df" "j \<le> r" "row_key df j = row_key df r" by blast
    from j(1,2) r len have "cvals (df ! i) ! j \<in> set (nths (cvals (df ! i)) (first_occurrences df))"
      by (auto simp: set_nths)
    with null have "isna (cvals (df ! i) ! j)" by (simp add: list_all_iff)
    moreover from j(3) have "row_key df j ! i = row_key df r ! i" by simp
    ultimately show ?thesis by (simp add: key split: if_splits)
  qed
  with len show ?thesis by (simp add: list_all_length)
qed

lemma parses_not_all_null:
  "parses P c \<Longrightarrow> \<not> list_all isna (cvals (parse_column P c))"
proof -
  assume p: "parses P c"
  then have "filter (\<lambda>x. \<not> isna x) (parsed_values P (cvals c)) \<noteq> []"
    by (auto simp: parses_def converted_count_def)
  then show ?thesis
    using p by (auto simp: parse_column_def filter_empty_conv list_all_iff)
qed

text \<open>A column that is not an object column and entirely null after passes 1 to 3 has
  not been touched by them.\<close>

lemma all_null_before_normalized:
  assumes "dtype (email_column (parse_column P (trim_column P c))) \<noteq> Object"
    and "list_all isna (cvals (email_column (parse_column P (trim_column P c))))"
  shows "email_column (parse_column P (trim_column P c)) = c"
proof -
  let ?c2 = "parse_column P (trim_column P c)"
  from assms(1) have "dtype ?c2 \<noteq> Object" by simp
  then have e: "email_column ?c2 = ?c2"
    by (simp add: email_column_def email_applies_def)
  have np: "\<not> parses P (trim_column P c)"
    using assms(2) parses_not_all_null [of P "trim_column P c"] by (auto simp: e)
  then have p: "?c2 = trim_column P c" by (rule parse_column_False)
  from assms(1) have "dtype c \<noteq> Object" by (simp add: e p)
  then have "trim_column P c = c" by (simp add: trim_column_def)
  with e p show ?thesis by simp
qed



text \<open>
  C1 as stated fails for a temporal column that is entirely null: its mode is empty, pass 5
  fills the nulls with NaT, and the column is returned as it was, while the audit counts
  its values as imputed.
\<close>

theorem all_null_temporal_column_counterexample:
  "well_formed unset_dates_frame \<and>
   fst (clean_dataframe sample_pandas unset_dates_frame) =
     [\<lparr>cname = ''id'', dtype = Int64, cvals = [IntV 1, IntV 2]\<rparr>,
      \<lparr>cname = ''created_at'', dtype = Datetime64, cvals = [Null NaT, Null NaT]\<rparr>] \<and>
   get_change (column_changes (snd (clean_dataframe sample_pandas unset_dates_frame)))
     ''created_at'' ''imputed_missing'' = Some (AInt 2)"
  by code_simp


text \<open>
  C1, amended. \<^verbatim>\<open>clean_dataframe\<close> returns as many columns as it is given, and a column it
  returns holds no null, with two exceptions. A \<^verbatim>\<open>datetime64\<close> column may be returned
  entirely null, and that happens only to a column that was \<^verbatim>\<open>datetime64\<close> and entirely null
  in the input. A numeric column may keep its nulls when the median of its non-null values
  is \<^verbatim>\<open>NaN\<close> (the two middle values are \<^verbatim>\<open>inf\<close> and \<^verbatim>\<open>-inf\<close>): its nulls are then
  filled with \<^verbatim>\<open>NaN\<close>.
\<close>

theorem cleaned_frame_nulls:
  assumes "well_formed df" and "i < length df"
  shows "length (fst (clean_dataframe P df)) = length df \<and>
         (list_all (\<lambda>x. \<not> isna x) (cvals (fst (clean_dataframe P df) ! i)) \<or>
          (dtype (fst (clean_dataframe P df) ! i) = Datetime64 \<and>
           list_all isna (cvals (fst (clean_dataframe P df) ! i)) \<and>
           dtype (df ! i) = Datetime64 \<and> list_all isna (cvals (df ! i))) \<or>
          (is_numeric_dtype (dtype (fst (clean_dataframe P df) ! i)) \<and>
           list_ex (\<lambda>x. \<not> isna x) (cvals (fst (clean_dataframe P df) ! i)) \<and>
           median P (List.map_filter numeric_value
             (cvals (fst (clean_dataframe P df) ! i))) = None))"
proof -
  let ?N = "normalized P df"
  let ?c4 = "deduped P df ! i"
  have out: "fst (clean_dataframe P df) ! i = impute_column P ?c4"
    using assms(2) by (simp add: clean_dataframe_eq)
  have len: "length (fst (clean_dataframe P df)) = length df"
    by (simp add: clean_dataframe_eq)
  have wfN: "well_formed ?N"
    by (rule well_formed_normalized [OF assms(1)])
  have iN: "i < length ?N"
    using assms(2) by (simp add: normalized_def)
  have c4: "?c4 = (?N ! i)\<lparr>cvals := nths (cvals (?N ! i)) (first_occurrences ?N)\<rparr>"
    by (simp only: nth_deduped [OF assms(2)] select_rows_nths keep_rows_set [OF wfN])
  have Ni: "?N ! i = email_column (parse_column P (trim_column P (df ! i)))"
    using assms(2) by (simp add: normalized_def)
  from impute_column_post [OF well_typed_deduped [OF assms], of P]
  consider
    (full) "list_all (\<lambda>x. \<not> isna x) (cvals (impute_column P ?c4))"
  | (unset) "dtype ?c4 = Datetime64 \<and> list_all isna (cvals ?c4) \<and>
             list_all isna (cvals (impute_column P ?c4))"
  | (nan) "is_numeric_dtype (dtype ?c4) \<and>
           list_ex (\<lambda>x. \<not> isna x) (cvals (impute_column P ?c4)) \<and>
           median P (List.map_filter numeric_value (cvals (impute_column P ?c4))) = None"
    by blast
  then show ?thesis
  proof cases
    case full
    then show ?thesis by (simp only: out len) simp
  next
    case nan
    then have "is_numeric_dtype (dtype (impute_column P ?c4))"
      by simp
    with nan show ?thesis by (simp only: out len) simp
  next
    case unset
    then have dN: "dtype (?N ! i) = Datetime64"
      and nN: "list_all isna (nths (cvals (?N ! i)) (first_occurrences ?N))"
      by (simp_all add: c4)
    from dN have notobj: "dtype (?N ! i) \<noteq> Object" by simp
    have allN: "list_all isna (cvals (?N ! i))"
      by (rule all_null_before_dedup [OF wfN iN notobj nN])
    have same: "?N ! i = df ! i"
      unfolding Ni by (rule all_null_before_normalized) (use notobj allN in \<open>simp_all add: Ni\<close>)
    from unset dN allN show ?thesis
      by (simp add: out len same [symmetric])
  qed
qed

theorem cleaned_frame_nulls_witness:
  "well_formed float_frame \<and> 0 < length float_frame \<and>
   length (fst (clean_dataframe sample_pandas float_frame)) = length float_frame \<and>
   list_all (\<lambda>x. \<not> isna x) (cvals (fst (clean_dataframe sample_pandas float_frame) ! 0))"
proof -
  have h1: "well_formed float_frame"
    by code_simp
  have h2: "0 < length float_frame"
    by (simp add: float_frame_def)
  have nd: "dtype (float_frame ! 0) \<noteq> Datetime64"
    by (simp add: float_frame_def)
  have med: "median sample_pandas (List.map_filter numeric_value
      (cvals (fst (clean_dataframe sample_pandas float_frame) ! 0))) \<noteq> None"
    by code_simp
  note t = cleaned_frame_nulls [OF h1 h2, of sample_pandas]
  from t have len: "length (fst (clean_dataframe sample_pandas float_frame)) = length float_frame"
    by (rule conjunct1)
  from t [THEN conjunct2]
  have "list_all (\<lambda>x. \<not> isna x) (cvals (fst (clean_dataframe sample_pandas float_frame) ! 0))"
  proof (elim disjE)
    assume "dtype (fst (clean_dataframe sample_pandas float_frame) ! 0) = Datetime64 \<and>
      list_all isna (cvals (fst (clean_dataframe sample_pandas float_frame) ! 0)) \<and>
      dtype (float_frame ! 0) = Datetime64 \<and> list_all isna (cvals (float_frame ! 0))"
    then have "dtype (float_frame ! 0) = Datetime64"
      by (elim conjE)
    with nd show ?thesis by (rule notE)
  next
    assume "is_numeric_dtype (dtype (fst (clean_dataframe sample_pandas float_frame) ! 0)) \<and>
      list_ex (\<lambda>x. \<not> isna x) (cvals (fst (clean_dataframe sample_pandas float_frame) ! 0)) \<and>
      median sample_pandas (List.map_filter numeric_value
        (cvals (fst (clean_dataframe sample_pandas float_frame) ! 0))) = None"
    then have "median sample_pandas (List.map_filter numeric_value
        (cvals (fst (clean_dataframe sample_pandas float_frame) ! 0))) = None"
      by (elim conjE)
    with med show ?thesis by (rule notE)
  qed
  with h1 h2 len show ?thesis by blast
qed

subsection \<open>Clean text\<close>

lemma last_dropWhile: "dropWhile P xs \<noteq> [] \<Longrightarrow> last (dropWhile P xs) = last xs"
  by (induction xs) (auto split: if_splits)

lemma str_strip_clean: "str_strip s \<noteq> [] \<Longrightarrow> clean_text (str_strip s)"
proof -
  assume ne: "str_strip s \<noteq> []"
  let ?u = "dropWhile isspace s"
  let ?v = "dropWhile isspace (rev ?u)"
  have t: "str_strip s = rev ?v" by (simp add: str_strip_def)
  with ne have v: "?v \<noteq> []" by simp
  have u: "?u \<noteq> []"
  proof
    assume e: "?u = []"
    have "?v = dropWhile isspace (rev [])" by (simp only: e)
    with v show False by simp
  qed
  have "\<not> isspace (hd ?v)" using v by (rule hd_dropWhile)
  then have l: "\<not> isspace (last (str_strip s))" by (simp add: t last_rev)
  have "last ?v = last (rev ?u)" using v by (rule last_dropWhile)
  then have "hd (str_strip s) = hd ?u" by (simp add: t hd_rev last_rev)
  moreover have "\<not> isspace (hd ?u)" using u by (rule hd_dropWhile)
  ultimately have h: "\<not> isspace (hd (str_strip s))" by simp
  from ne h l show ?thesis by (simp add: clean_text_def)
qed

lemma clean_text_strip: "clean_text s \<Longrightarrow> str_strip s = s"
proof -
  assume c: "clean_text s"
  then have 1: "dropWhile isspace s = s"
    by (simp add: clean_text_def dropWhile_eq_self_iff)
  from c have "dropWhile isspace (rev s) = rev s"
    by (simp add: clean_text_def dropWhile_eq_self_iff hd_rev)
  with 1 show ?thesis by (simp add: str_strip_def)
qed

lemma isspace_letters:
  "c \<in> set upper_letters \<Longrightarrow> \<not> isspace c" "c \<in> set lower_letters \<Longrightarrow> \<not> isspace c"
  by (auto simp: upper_letters_def lower_letters_def isspace_def)

lemma isspace_lower_char: "isspace (lower_char c) = isspace c"
  using lower_char_cases [of c] isspace_letters by auto

lemma clean_text_lower: "clean_text s \<Longrightarrow> clean_text (str_lower s)"
  by (simp add: clean_text_def str_lower_def hd_map last_map isspace_lower_char)

lemma lower_not_upper: "c \<in> set lower_letters \<Longrightarrow> c \<notin> set upper_letters"
  by (auto simp: upper_letters_def lower_letters_def)

lemma lower_char_idem: "lower_char (lower_char c) = lower_char c"
  using lower_char_cases [of c] lower_char_cases [of "lower_char c"] lower_not_upper by auto

lemma str_lower_idem: "str_lower (str_lower s) = str_lower s"
  by (simp add: str_lower_def lower_char_idem)

lemma clean_text_Unknown: "clean_text ''Unknown''"
  by (simp add: clean_text_def isspace_def)

subsection \<open>The text of the cleaned frame\<close>

lemma trim_values_map:
  "trim_values P vs =
     map (\<lambda>x. if str_strip (py_str P x) = [] then Null NA else Str (str_strip (py_str P x))) vs"
  by (simp add: trim_values_def assign_where_def)

lemma clean_trim_values: "list_all clean_cell (trim_values P vs)"
  unfolding trim_values_map
  by (induction vs) (simp_all add: clean_cell_def str_strip_clean)

lemma ball_assign_where:
  "(\<And>x. x \<in> set vs \<Longrightarrow> Q (if p x then v else x)) \<Longrightarrow> \<forall>y\<in>set (assign_where p v vs). Q y"
  unfolding assign_where_def by (induction vs) simp_all

lemma clean_trim_column: "clean_column (trim_column P c)"
  by (simp add: clean_column_def trim_column_def clean_trim_values)

lemma clean_parse_column: "clean_column c \<Longrightarrow> clean_column (parse_column P c)"
  by (simp add: clean_column_def parse_column_def)

lemma clean_cell_lower: "clean_cell x \<Longrightarrow> clean_cell (str_method str_lower x)"
  by (cases x) (simp_all add: clean_cell_def clean_text_lower)

lemma clean_email_column: "clean_column c \<Longrightarrow> clean_column (email_column c)"
  by (simp add: clean_column_def email_column_def list_all_iff clean_cell_lower)

lemma clean_select_rows:
  "clean_column c \<Longrightarrow> clean_column (c\<lparr>cvals := select_rows keep (cvals c)\<rparr>)"
  using set_select_rows [of keep "cvals c"] by (auto simp: clean_column_def list_all_iff)

lemma clean_deduped:
  assumes "i < length df"
  shows "clean_column (deduped P df ! i)"
proof -
  have "clean_column (normalized P df ! i)"
    using assms
    by (simp add: normalized_def clean_trim_column clean_parse_column clean_email_column)
  then show ?thesis
    by (simp only: nth_deduped [OF assms] clean_select_rows)
qed

lemma set_mode: "set (mode xs) \<subseteq> set xs"
  by (auto simp: mode_def Let_def)

lemma set_map_filter: "set (List.map_filter f xs) = {y. \<exists>x\<in>set xs. f x = Some y}"
  by (induction xs) (auto simp: List.map_filter_simps split: option.splits)

lemma string_value_Some: "string_value x = Some s \<longleftrightarrow> x = Str s"
  by (cases x) auto

lemma clean_cell_notna: "clean_cell x \<Longrightarrow> \<not> isna x \<Longrightarrow> \<exists>s. x = Str s \<and> clean_text s"
  by (cases x) (simp_all add: clean_cell_def)

lemma impute_fill_text:
  assumes "clean_column c" and "dtype c = Object"
  shows "\<exists>s. impute_fill P c = Str s \<and> clean_text s"
proof -
  let ?strs = "List.map_filter string_value (cvals c)"
  have strs: "clean_text s" if "s \<in> set ?strs" for s
  proof -
    from that have "Str s \<in> set (cvals c)"
      by (auto simp: set_map_filter string_value_Some)
    with assms have "clean_cell (Str s)"
      by (simp add: clean_column_def list_all_iff)
    then show ?thesis by (simp add: clean_cell_def)
  qed
  have fill: "impute_fill P c = Str (case mode ?strs of [] \<Rightarrow> ''Unknown'' | s # _ \<Rightarrow> s)"
    using assms(2)
    by (simp add: impute_fill_def impute_text_def is_numeric_dtype_def
        is_datetime64_any_dtype_def)
  show ?thesis
  proof (cases "mode ?strs")
    case Nil
    then show ?thesis by (simp add: fill clean_text_Unknown)
  next
    case (Cons s ss)
    then have "s \<in> set (mode ?strs)" by simp
    with set_mode have "s \<in> set ?strs" by blast
    with Cons show ?thesis by (simp add: fill strs)
  qed
qed

lemma text_impute_column:
  assumes "clean_column c"
  shows "text_column (impute_column P c)"
proof (cases "dtype c = Object")
  case False
  then show ?thesis by (simp add: text_column_def)
next
  case True
  show ?thesis
  proof (cases "count_na (cvals c) = 0")
    case z: True
    then have "\<forall>x\<in>set (cvals c). \<not> isna x"
      using count_na_zero [of "cvals c"] by (simp add: list_all_iff)
    moreover from assms True have "\<forall>x\<in>set (cvals c). clean_cell x"
      by (simp add: clean_column_def list_all_iff)
    ultimately show ?thesis
      using z clean_cell_notna by (auto simp: text_column_def impute_column_def)
  next
    case nz: False
    from impute_fill_text [OF assms True] obtain s where
      s: "impute_fill P c = Str s" "clean_text s" by blast
    have "\<exists>t. (if isna x then impute_fill P c else x) = Str t \<and> clean_text t"
      if "x \<in> set (cvals c)" for x
    proof (cases "isna x")
      case True
      with s show ?thesis by simp
    next
      case False
      from that assms \<open>dtype c = Object\<close> have "clean_cell x"
        by (simp add: clean_column_def list_all_iff)
      with False show ?thesis using clean_cell_notna by simp
    qed
    then have "\<forall>y\<in>set (assign_where isna (impute_fill P c) (cvals c)). \<exists>t. y = Str t \<and> clean_text t"
      by (rule ball_assign_where)
    then show ?thesis
      using nz by (simp add: text_column_def impute_column_def)
  qed
qed

lemma text_cleaned:
  assumes "i < length df"
  shows "text_column (fst (clean_dataframe P df) ! i)"
  using assms clean_deduped [OF assms, of P]
  by (simp add: clean_dataframe_eq text_impute_column)

subsection \<open>The cleaned frame is a frame\<close>

lemma first_occurrences_bound: "first_occurrences df \<subseteq> {i. i < len df}"
  by (auto simp: first_occurrences_def)

lemma finite_first_occurrences [simp]: "finite (first_occurrences df)"
  by (rule finite_subset [OF first_occurrences_bound]) simp

lemma length_nths_first_occurrences:
  "length vs = len df \<Longrightarrow> length (nths vs (first_occurrences df)) = card (first_occurrences df)"
proof -
  assume "length vs = len df"
  then have "{i. i < length vs \<and> i \<in> first_occurrences df} = first_occurrences df"
    using first_occurrences_bound [of df] by auto
  then show ?thesis by (simp add: length_nths)
qed

lemma deduped_nths:
  assumes "well_formed df"
  shows "deduped P df =
           map (\<lambda>c. c\<lparr>cvals := nths (cvals c) (first_occurrences (normalized P df))\<rparr>)
             (normalized P df)"
  by (simp add: deduped_def select_rows_nths keep_rows_set [OF well_formed_normalized [OF assms]])

lemma length_cvals_deduped:
  assumes "well_formed df" and "c \<in> set (deduped P df)"
  shows "length (cvals c) = card (first_occurrences (normalized P df))"
proof -
  let ?N = "normalized P df"
  from assms(2) obtain c' where c': "c' \<in> set ?N"
    and c: "c = c'\<lparr>cvals := nths (cvals c') (first_occurrences ?N)\<rparr>"
    by (auto simp: deduped_nths [OF assms(1)])
  from well_formed_normalized [OF assms(1), of P] c' have "length (cvals c') = len ?N"
    by (simp add: well_formed_def list_all_iff)
  then show ?thesis by (simp add: c length_nths_first_occurrences)
qed

lemma len_deduped:
  assumes "well_formed df"
  shows "len (deduped P df) = card (first_occurrences (normalized P df))"
proof (cases "deduped P df")
  case Nil
  then have "normalized P df = []" by (simp add: deduped_def)
  then have "first_occurrences (normalized P df) = {}"
    by (simp add: first_occurrences_def len_def)
  with Nil show ?thesis by (simp add: len_def)
next
  case (Cons c cs)
  then have "c \<in> set (deduped P df)" by simp
  from length_cvals_deduped [OF assms this] Cons show ?thesis by (simp add: len_def)
qed

lemma has_dtype_no_null:
  "has_dtype d x \<Longrightarrow> d = Int64 \<or> d = Boolean \<Longrightarrow> \<not> isna x"
  by (cases x) auto

lemma has_dtype_float_cell: "has_dtype Float64 (float_cell v)"
  by (cases v) simp_all

lemma well_typed_impute_column:
  assumes "well_typed c"
  shows "well_typed (impute_column P c)"
proof (cases "count_na (cvals c) = 0")
  case True
  with assms show ?thesis by (simp add: impute_column_def)
next
  case False
  then obtain x where x: "x \<in> set (cvals c)" "isna x"
    by (auto simp: count_na_def filter_empty_conv)
  with assms have hx: "has_dtype (dtype c) x"
    by (simp add: well_typed_def list_all_iff)
  with x(2) have d: "dtype c \<noteq> Int64" "dtype c \<noteq> Boolean"
    using has_dtype_no_null by blast+
  have "has_dtype (dtype c) (impute_fill P c)"
    using d has_dtype_float_cell [of "impute_median P c"] by (cases "dtype c")
      (simp_all add: impute_fill_def is_numeric_dtype_def is_datetime64_any_dtype_def
        has_dtype_float_cell split: list.splits)
  then have "\<forall>y\<in>set (assign_where isna (impute_fill P c) (cvals c)). has_dtype (dtype c) y"
    using assms by (intro ball_assign_where) (simp add: well_typed_def list_all_iff)
  with False show ?thesis
    by (simp add: impute_column_def well_typed_def list_all_iff)
qed

lemma well_formed_cleaned:
  assumes "well_formed df"
  shows "well_formed (fst (clean_dataframe P df))"
proof -
  let ?D = "map (impute_column P) (deduped P df)"
  have names: "distinct (map cname ?D)"
    using assms by (simp add: well_formed_def comp_def)
  have lenD: "len ?D = len (deduped P df)"
    by (simp add: len_map)
  have lens: "list_all (\<lambda>c. length (cvals c) = len ?D) ?D"
    using length_cvals_deduped [OF assms, of _ P]
    by (simp add: lenD len_deduped [OF assms] list_all_iff)
  have "well_typed (impute_column P c)" if "c \<in> set (deduped P df)" for c
  proof -
    from that obtain i where i: "i < length df" and c: "c = deduped P df ! i"
      by (auto simp: in_set_conv_nth)
    have "well_typed (deduped P df ! i)"
      by (rule well_typed_deduped [OF assms i])
    then show ?thesis
      unfolding c by (rule well_typed_impute_column)
  qed
  then have "list_all well_typed ?D"
    by (simp add: list_all_iff)
  with names lens show ?thesis
    by (simp add: well_formed_def clean_dataframe_eq)
qed

subsection \<open>A second run\<close>

text \<open>The frame \<^verbatim>\<open>clean_dataframe\<close> returns is given to it again. Pass 1 finds the text as
  it left it; pass 3 lower-cases what pass 5 may have filled in, which does not change a
  comparison key; the rows pass 4 removes are then the repeated rows of the frame.\<close>

lemma trim_values_text:
  assumes "\<forall>x\<in>set vs. \<exists>s. x = Str s \<and> clean_text s"
  shows "trim_values P vs = vs"
proof -
  have "(if str_strip (py_str P x) = [] then Null NA else Str (str_strip (py_str P x))) = x"
    if "x \<in> set vs" for x
  proof -
    from assms that obtain s where s: "x = Str s" "clean_text s" by blast
    then have "str_strip s = s" by (simp add: clean_text_strip)
    moreover from s have "s \<noteq> []" by (simp add: clean_text_def)
    ultimately show ?thesis by (simp add: s)
  qed
  then show ?thesis
    unfolding trim_values_map by (simp add: map_idI)
qed

lemma trim_column_text: "text_column c \<Longrightarrow> trim_column P c = c"
  by (simp add: trim_column_def text_column_def trim_values_text)

lemma trim_entry_text:
  assumes "text_column c"
  shows "trim_entry P c = (\<lambda>d. d)"
proof (cases "dtype c = Object")
  case False
  then show ?thesis by (simp add: trim_entry_def)
next
  case True
  with assms have "trim_values P (cvals c) = cvals c"
    by (simp add: text_column_def trim_values_text)
  then have "trim_delta P (cvals c) = 0"
    by (simp add: trim_delta_def)
  then show ?thesis by (simp add: trim_entry_def)
qed

lemma comparison_key_email:
  "i < length (cvals c) \<Longrightarrow>
   comparison_key (email_column c) (cvals (email_column c) ! i) = comparison_key c (cvals c ! i)"
proof (cases "email_applies c")
  case False
  then show ?thesis by (simp add: email_column_def)
next
  case True
  assume i: "i < length (cvals c)"
  from True have obj: "dtype c = Object" by (simp add: email_applies_def)
  have col: "cvals (email_column c) ! i = str_method str_lower (cvals c ! i)"
    using True i by (simp add: email_column_def)
  show ?thesis
    unfolding col
    by (cases "cvals c ! i") (simp_all add: comparison_key_def obj str_lower_idem)
qed

lemma len_map_email [simp]: "len (map email_column df) = len df"
  by (rule len_map) simp

lemma row_key_email:
  assumes "well_formed df" and "i < len df"
  shows "row_key (map email_column df) i = row_key df i"
proof -
  have "comparison_key (email_column c) (cvals (email_column c) ! i) =
        comparison_key c (cvals c ! i)" if "c \<in> set df" for c
  proof -
    from that assms(1) have "length (cvals c) = len df"
      by (simp add: well_formed_def list_all_iff)
    with assms(2) show ?thesis by (simp add: comparison_key_email)
  qed
  then show ?thesis
    by (simp add: row_key_def comp_def)
qed

lemma first_occurrences_email:
  assumes "well_formed df"
  shows "first_occurrences (map email_column df) = first_occurrences df"
  unfolding first_occurrences_def
  using row_key_email [OF assms] by auto

lemma card_first_occurrences:
  "card (first_occurrences df) = card (set (map (row_key df) [0..<len df]))"
proof -
  have inj: "inj_on (row_key df) (first_occurrences df)"
    by (rule inj_onI) (rule first_occurrences_unique)
  have "row_key df ` first_occurrences df = row_key df ` {0..<len df}"
  proof
    show "row_key df ` first_occurrences df \<subseteq> row_key df ` {0..<len df}"
      using first_occurrences_bound [of df] by auto
    show "row_key df ` {0..<len df} \<subseteq> row_key df ` first_occurrences df"
    proof
      fix k assume "k \<in> row_key df ` {0..<len df}"
      then obtain i where i: "i < len df" and k: "k = row_key df i" by auto
      from first_occurrences_cover [OF i] obtain j
        where "j \<in> first_occurrences df" "row_key df j = row_key df i" by blast
      then show "k \<in> row_key df ` first_occurrences df"
        unfolding k by (metis imageI)
    qed
  qed
  then have "card (row_key df ` first_occurrences df) = card (set (map (row_key df) [0..<len df]))"
    by simp
  with card_image [OF inj] show ?thesis by simp
qed

lemma distinct_rows:
  "card (set (map (row_key df) [0..<len df])) = len df \<longleftrightarrow>
   distinct (map (row_key df) [0..<len df])"
  using card_distinct [of "map (row_key df) [0..<len df]"]
    distinct_card [of "map (row_key df) [0..<len df]"] by auto

lemma card_rows_le: "card (set (map (row_key df) [0..<len df])) \<le> len df"
  using card_length [of "map (row_key df) [0..<len df]"] by simp

lemma no_new_nulls_entry:
  "map_of (impute_entry P c4 (email_entry P c3 (parse_entry P c2 [])))
     ''new_nulls_from_empty_strings'' = None"
  by (simp add: map_of_impute_entry map_of_email_entry map_of_parse_entry)


lemma rerun_trim:
  assumes "well_formed df"
  shows "map (trim_column P) (fst (clean_dataframe P df)) = fst (clean_dataframe P df)"
proof -
  let ?D = "fst (clean_dataframe P df)"
  have len: "length ?D = length df"
    by (simp add: clean_dataframe_eq)
  have "trim_column P c = c" if "c \<in> set ?D" for c
  proof -
    from that obtain i where "i < length ?D" and c: "c = ?D ! i"
      by (auto simp: in_set_conv_nth)
    then have "i < length df" by (simp only: len)
    then have "text_column (?D ! i)" by (rule text_cleaned)
    then show ?thesis unfolding c by (rule trim_column_text)
  qed
  then show ?thesis by (simp add: map_idI)
qed

lemma rerun_new_nulls:
  assumes "well_formed df"
  shows "get_change (column_changes (snd (clean_dataframe P (fst (clean_dataframe P df)))))
           col ''new_nulls_from_empty_strings'' = None"
proof -
  let ?D = "fst (clean_dataframe P df)"
  let ?ch = "column_changes (snd (clean_dataframe P ?D))"
  have len: "length ?D = length df"
    by (simp add: clean_dataframe_eq)
  have dist: "distinct (map cname ?D)"
    using well_formed_cleaned [OF assms, of P] by (simp add: well_formed_def)
  show ?thesis
  proof (cases "col \<in> cname ` set ?D")
    case False
    then have "col \<notin> fst ` set ?ch"
      by (simp only: column_changes_keys not_False_eq_True)
    then have "map_of ?ch col = None"
      by (simp add: map_of_eq_None_iff)
    then show ?thesis by (simp add: get_change_def)
  next
    case True
    then obtain i where i: "i < length ?D" and col: "col = cname (?D ! i)"
      by (auto simp: in_set_conv_nth)
    from i have "i < length df" by (simp only: len)
    then have "text_column (?D ! i)" by (rule text_cleaned)
    then have t: "trim_entry P (?D ! i) = (\<lambda>d. d)" by (rule trim_entry_text)
    show ?thesis
      unfolding col get_change_def
      by (simp only: column_changes_nth [OF dist i] option.case t no_new_nulls_entry)
  qed
qed

lemma rerun_duplicates:
  assumes "well_formed df"
    and "map (parse_column P) (fst (clean_dataframe P df)) = fst (clean_dataframe P df)"
  shows "duplicates_removed (snd (clean_dataframe P (fst (clean_dataframe P df)))) =
           int (len (fst (clean_dataframe P df))) -
           int (card (set (map (row_key (fst (clean_dataframe P df)))
                  [0..<len (fst (clean_dataframe P df))])))"
proof -
  let ?D = "fst (clean_dataframe P df)"
  have wf: "well_formed ?D" by (rule well_formed_cleaned [OF assms(1)])
  have "normalized P ?D = map email_column (map (parse_column P) (map (trim_column P) ?D))"
    by (simp add: normalized_def)
  then have norm: "normalized P ?D = map email_column ?D"
    by (simp only: rerun_trim [OF assms(1)] assms(2))
  have "duplicates_removed (snd (clean_dataframe P ?D)) = int (len ?D) - int (len (deduped P ?D))"
    by (simp add: clean_dataframe_eq [of P ?D])
  also have "len (deduped P ?D) = card (first_occurrences ?D)"
    by (simp only: len_deduped [OF wf] norm first_occurrences_email [OF wf])
  finally show ?thesis by (simp only: card_first_occurrences)
qed


text \<open>
  C5 as stated fails. In \<^verbatim>\<open>gap_frame\<close> the two rows differ only in a value that is missing
  in the first; the first run removes no row and fills the gap with the median 5, which
  makes the rows equal, so the second run removes one row and returns one row for two.
  Stages report again as well: on the cleaned \<^verbatim>\<open>created_at\<close> example pass 2 records
  \<^verbatim>\<open>parsed_to_datetime\<close> for the column that is already temporal, and pass 3 records its
  two counts for every email column.
\<close>

theorem second_run_counterexample:
  "well_formed gap_frame \<and>
   fst (clean_dataframe sample_pandas gap_frame) =
     [\<lparr>cname = ''a'', dtype = Float64, cvals = [FloatV (Fin 1), FloatV (Fin 1)]\<rparr>,
      \<lparr>cname = ''b'', dtype = Float64, cvals = [FloatV (Fin 5), FloatV (Fin 5)]\<rparr>] \<and>
   duplicates_removed (snd (clean_dataframe sample_pandas gap_frame)) = 0 \<and>
   duplicates_removed
     (snd (clean_dataframe sample_pandas (fst (clean_dataframe sample_pandas gap_frame)))) = 1 \<and>
   rows_before
     (snd (clean_dataframe sample_pandas (fst (clean_dataframe sample_pandas gap_frame)))) = 2 \<and>
   rows_after
     (snd (clean_dataframe sample_pandas (fst (clean_dataframe sample_pandas gap_frame)))) =
     Some 1 \<and>
   well_formed created_frame \<and>
   get_change
     (column_changes
       (snd (clean_dataframe sample_pandas (fst (clean_dataframe sample_pandas created_frame)))))
     ''created_at'' ''parsed_to_datetime'' = Some (AInt 3) \<and>
   well_formed john_frame \<and>
   get_change
     (column_changes
       (snd (clean_dataframe sample_pandas (fst (clean_dataframe sample_pandas john_frame)))))
     ''email'' ''emails_valid_before'' = Some (AInt 1)"
  by code_simp



text \<open>
  C5, amended. On the frame returned by a first run, a second run starts from the number
  of rows the first run returned and ends with that number less the duplicates it removes;
  pass 1 changes no value and records \<^verbatim>\<open>new_nulls_from_empty_strings\<close> for no column; and
  where pass 2 converts no column of that frame, \<^verbatim>\<open>duplicates_removed\<close> is the number of
  its rows less the number of different rows (rows compared by their comparison keys), so
  it is 0 exactly when no two rows of the cleaned frame have the same keys.
\<close>

theorem second_run:
  assumes "well_formed df"
  shows "let D = fst (clean_dataframe P df);
             a2 = snd (clean_dataframe P D);
             rows = map (row_key D) [0..<len D]
         in rows_before a2 = int (len D) \<and>
            rows_after a2 = Some (rows_before a2 - duplicates_removed a2) \<and>
            fst (for_columns (trim_col P) D []) = D \<and>
            (\<forall>col. get_change (column_changes a2) col ''new_nulls_from_empty_strings'' = None) \<and>
            (fst (for_columns (parse_col P) D []) = D \<longrightarrow>
               duplicates_removed a2 = int (len D) - int (card (set rows)) \<and>
               (duplicates_removed a2 = 0 \<longleftrightarrow> distinct rows))"
proof -
  let ?D = "fst (clean_dataframe P df)"
  let ?a2 = "snd (clean_dataframe P ?D)"
  let ?rows = "map (row_key ?D) [0..<len ?D]"
  have 1: "rows_before ?a2 = int (len ?D)"
    by (simp add: clean_dataframe_eq [of P ?D])
  have 2: "rows_after ?a2 = Some (rows_before ?a2 - duplicates_removed ?a2)"
    by (simp add: clean_dataframe_eq [of P ?D])
  have 3: "fst (for_columns (trim_col P) ?D []) = ?D"
    by (simp only: for_columns_eq [OF trim_col_eq] fst_conv rerun_trim [OF assms])
  have 4: "\<forall>col. get_change (column_changes ?a2) col ''new_nulls_from_empty_strings'' = None"
    using rerun_new_nulls [OF assms] by blast
  have 5: "duplicates_removed ?a2 = int (len ?D) - int (card (set ?rows)) \<and>
           (duplicates_removed ?a2 = 0 \<longleftrightarrow> distinct ?rows)"
    if "fst (for_columns (parse_col P) ?D []) = ?D"
  proof -
    from that have "map (parse_column P) ?D = ?D"
      by (simp only: for_columns_eq [OF parse_col_eq] fst_conv)
    then have d: "duplicates_removed ?a2 = int (len ?D) - int (card (set ?rows))"
      by (rule rerun_duplicates [OF assms])
    have "duplicates_removed ?a2 = 0 \<longleftrightarrow> card (set ?rows) = len ?D"
      unfolding d using card_rows_le [of ?D] by linarith
    also have "\<dots> \<longleftrightarrow> distinct ?rows"
      by (rule distinct_rows)
    finally show ?thesis using d by simp
  qed
  show ?thesis
    unfolding Let_def using 1 2 3 4 5 by (intro conjI impI) blast+
qed

theorem second_run_witness:
  "well_formed john_frame \<and>
   fst (clean_dataframe sample_pandas john_frame) =
     [\<lparr>cname = ''name'', dtype = Object, cvals = [Str ''John'']\<rparr>,
      \<lparr>cname = ''email'', dtype = Object, cvals = [Str ''a@x.com'']\<rparr>] \<and>
   fst (for_columns (parse_col sample_pandas) (fst (clean_dataframe sample_pandas john_frame)) []) =
     fst (clean_dataframe sample_pandas john_frame) \<and>
   distinct (map (row_key (fst (clean_dataframe sample_pandas john_frame)))
     [0..<len (fst (clean_dataframe sample_pandas john_frame))]) \<and>
   duplicates_removed
     (snd (clean_dataframe sample_pandas (fst (clean_dataframe sample_pandas john_frame)))) = 0 \<and>
   rows_after
     (snd (clean_dataframe sample_pandas (fst (clean_dataframe sample_pandas john_frame)))) =
     Some (rows_before
       (snd (clean_dataframe sample_pandas (fst (clean_dataframe sample_pandas john_frame)))) - 0) \<and>
   get_change
     (column_changes
       (snd (clean_dataframe sample_pandas (fst (clean_dataframe sample_pandas john_frame)))))
     ''name'' ''new_nulls_from_empty_strings'' = None"
proof -
  let ?D = "fst (clean_dataframe sample_pandas john_frame)"
  let ?a2 = "snd (clean_dataframe sample_pandas ?D)"
  have h1: "well_formed john_frame"
    by code_simp
  have D: "?D = [\<lparr>cname = ''name'', dtype = Object, cvals = [Str ''John'']\<rparr>,
                 \<lparr>cname = ''email'', dtype = Object, cvals = [Str ''a@x.com'']\<rparr>]"
    by code_simp
  have g: "fst (for_columns (parse_col sample_pandas) ?D []) = ?D"
    by code_simp
  have dist: "distinct (map (row_key ?D) [0..<len ?D])"
    by code_simp
  note t = second_run [OF h1, of sample_pandas, unfolded Let_def]
  note t2 = t [THEN conjunct2, THEN conjunct1]
  note t4 = t [THEN conjunct2, THEN conjunct2, THEN conjunct2, THEN conjunct1, THEN spec,
      of "''name''"]
  note t5 = t [THEN conjunct2, THEN conjunct2, THEN conjunct2, THEN conjunct2, THEN mp, OF g]
  from t5 [THEN conjunct2] dist have dup: "duplicates_removed ?a2 = 0"
    by (rule iffD2)
  from t2 have rows: "rows_after ?a2 = Some (rows_before ?a2 - 0)"
    by (simp only: dup)
  show ?thesis
    using h1 D g dist dup rows t4 by (intro conjI)
qed

end
